theory Spec2Isabelle
  imports Complex_Main
begin

section \<open>JavaScript preliminaries\<close>

text \<open>
  JavaScript numbers that are integers in the source (MIDI pitches, scale degrees, bar
  counts) are modelled as \<open>int\<close>; the model agrees with the IEEE doubles of the source
  as long as every value stays below \<open>2^53\<close> in magnitude. Strings are \<open>char list\<close>s;
  only ASCII characters matter to the code modelled here.
\<close>

datatype js_error = TypeError

text \<open>
  The remainder operator \<open>a % b\<close> of JavaScript on integers, for \<open>b\<close> other than 0 (the
  source divides by 7 and by 12 only): the result takes the sign of \<open>a\<close>.
\<close>

definition js_rem :: "int \<Rightarrow> int \<Rightarrow> int" where
  "js_rem a b = sgn a * (\<bar>a\<bar> mod \<bar>b\<bar>)"

text \<open>
  Reading a property \<open>obj[key]\<close> of an object literal. A key that the literal does not
  define is looked up on \<open>Object.prototype\<close>, whose twelve members are functions (or,
  for \<open>__proto__\<close>, the prototype object itself): the read yields \<open>undefined\<close> only
  when the prototype has no such member either.
\<close>

datatype 'a js_prop = Own 'a | Inherited | Undefined

definition OBJECT_PROTOTYPE_KEYS :: "string list" where
  "OBJECT_PROTOTYPE_KEYS =
     [''constructor'', ''__defineGetter__'', ''__defineSetter__'', ''hasOwnProperty'',
      ''__lookupGetter__'', ''__lookupSetter__'', ''isPrototypeOf'',
      ''propertyIsEnumerable'', ''toString'', ''valueOf'', ''__proto__'',
      ''toLocaleString'']"

definition js_get :: "(string \<times> 'a) list \<Rightarrow> string \<Rightarrow> 'a js_prop" where
  "js_get obj k =
     (case map_of obj k of
        Some v \<Rightarrow> Own v
      | None \<Rightarrow> if k \<in> set OBJECT_PROTOTYPE_KEYS then Inherited else Undefined)"

text \<open>\<open>Array.prototype.indexOf\<close>: the first index holding the value, or \<open>-1\<close>.\<close>

fun indexOf :: "'a list \<Rightarrow> 'a \<Rightarrow> int" where
  "indexOf [] x = -1"
| "indexOf (y # ys) x =
     (if y = x then 0 else (let i = indexOf ys x in if i = -1 then -1 else i + 1))"

definition is_digit :: "char \<Rightarrow> bool" where
  "is_digit c \<longleftrightarrow> c \<in> set ''0123456789''"

definition digit_val :: "char \<Rightarrow> int" where
  "digit_val c = int (of_char c) - 48"

definition dec_val :: "string \<Rightarrow> int" where
  "dec_val ds = foldl (\<lambda>a d. 10 * a + digit_val d) 0 ds"

definition js_whitespace :: "char \<Rightarrow> bool" where
  "js_whitespace c \<longleftrightarrow> c \<in> set [CHR '' '', CHR 0x09, CHR 0x0A, CHR 0x0B, CHR 0x0C, CHR 0x0D]"

text \<open>
  \<open>Number.parseInt(s, 10)\<close>: leading white space is skipped, one sign is accepted, and
  the longest run of decimal digits is read; anything after it is ignored. \<open>None\<close> is
  \<open>NaN\<close>, the result when no digit is found. Of the white space characters only the
  ASCII ones are modelled.
\<close>

definition parseInt10 :: "string \<Rightarrow> int option" where
  "parseInt10 s =
     (let s1 = dropWhile js_whitespace s;
          (neg, s2) = (case s1 of
                         c # r \<Rightarrow> if c = CHR ''-'' then (True, r)
                                  else if c = CHR ''+'' then (False, r)
                                  else (False, s1)
                       | [] \<Rightarrow> (False, s1));
          ds = takeWhile is_digit s2
      in if ds = [] then None else Some (if neg then - dec_val ds else dec_val ds))"

section \<open>Music theory\<close>

definition CHORD_SHAPES :: "(string \<times> int list) list" where
  "CHORD_SHAPES =
     [(''maj7'', [0, 4, 7, 11]),
      (''min7'', [0, 3, 7, 10]),
      (''dom7'', [0, 4, 7, 10]),
      (''maj'', [0, 4, 7]),
      (''min'', [0, 3, 7]),
      (''add9'', [0, 4, 7, 14]),
      (''min9'', [0, 3, 7, 10, 14]),
      (''maj9'', [0, 4, 7, 11, 14]),
      (''m7b5'', [0, 3, 6, 10]),
      (''dim7'', [0, 3, 6, 9]),
      (''sus2'', [0, 2, 7]),
      (''sus4'', [0, 5, 7, 10])]"

definition SCALE_major :: "int list" where "SCALE_major = [0, 2, 4, 5, 7, 9, 11]"
definition SCALE_minor :: "int list" where "SCALE_minor = [0, 2, 3, 5, 7, 8, 10]"
definition SCALE_dorian :: "int list" where "SCALE_dorian = [0, 2, 3, 5, 7, 9, 10]"

definition SCALES :: "(string \<times> int list) list" where
  "SCALES =
     [(''major'', SCALE_major),
      (''minor'', SCALE_minor),
      (''dorian'', SCALE_dorian),
      (''pentatonic'', [0, 2, 4, 7, 9]),
      (''minPenta'', [0, 3, 5, 7, 10])]"

definition NOTE_NAMES :: "string list" where
  "NOTE_NAMES = [''C'', ''C#'', ''D'', ''D#'', ''E'', ''F'', ''F#'', ''G'', ''G#'', ''A'', ''A#'', ''B'']"

definition DIATONIC_MAJOR :: "(int \<times> string) list" where
  "DIATONIC_MAJOR =
     [(1, ''maj7''), (2, ''min7''), (3, ''min7''), (4, ''maj7''), (5, ''dom7''),
      (6, ''min7''), (7, ''m7b5'')]"

definition DIATONIC_MINOR :: "(int \<times> string) list" where
  "DIATONIC_MINOR =
     [(1, ''min7''), (2, ''m7b5''), (3, ''maj7''), (4, ''min7''), (5, ''min7''),
      (6, ''maj7''), (7, ''dom7'')]"

text \<open>
  The regular expression \<open>/^([A-G]#?)(-?\d+)$/\<close>: the two captured groups when the whole
  string matches, \<open>None\<close> when it does not. After the letter the characters \<open>#\<close> and
  \<open>-\<close> are taken when present; no other split of the string can match, since neither
  is a digit.
\<close>

definition is_note_letter :: "char \<Rightarrow> bool" where
  "is_note_letter c \<longleftrightarrow> c \<in> set ''ABCDEFG''"

definition NOTE_NAME_REGEX :: "string \<Rightarrow> (string \<times> string) option" where
  "NOTE_NAME_REGEX s =
     (case s of
        [] \<Rightarrow> None
      | c # r \<Rightarrow>
          if is_note_letter c then
            (let (g1, r1) = (case r of
                               h # r' \<Rightarrow> if h = CHR ''#'' then ([c, h], r') else ([c], r)
                             | [] \<Rightarrow> ([c], r));
                 (sign, ds) = (case r1 of
                                 m # r' \<Rightarrow> if m = CHR ''-'' then ([m], r') else ([], r1)
                               | [] \<Rightarrow> ([], r1))
             in if ds \<noteq> [] \<and> list_all is_digit ds then Some (g1, sign @ ds) else None)
          else None)"

text \<open>
  \<open>nameToMidi\<close>. The second group always holds digits, so \<open>parseInt\<close> cannot yield
  \<open>NaN\<close> there (lemma \<open>NOTE_NAME_REGEX_octave\<close> below); that branch of the model is
  unreachable and its value immaterial.
\<close>

definition nameToMidi :: "string \<Rightarrow> int" where
  "nameToMidi name =
     (case NOTE_NAME_REGEX name of
        None \<Rightarrow> 60
      | Some (g1, g2) \<Rightarrow>
          (let noteIdx = indexOf NOTE_NAMES g1 in
           case parseInt10 g2 of
             None \<Rightarrow> 0
           | Some octave \<Rightarrow> if noteIdx = -1 then 60 else (octave + 1) * 12 + noteIdx))"

text \<open>
  \<open>buildChord\<close>: \<open>CHORD_SHAPES[quality] ?? CHORD_SHAPES.maj7\<close>, then \<open>shape.map\<close>. The
  \<open>??\<close> operator replaces only \<open>undefined\<close>; a member inherited from
  \<open>Object.prototype\<close> is kept, has no \<open>map\<close> method, and the call raises.
\<close>

definition buildChord :: "int \<Rightarrow> string \<Rightarrow> js_error + int list" where
  "buildChord rootMidi quality =
     (case js_get CHORD_SHAPES quality of
        Own shape \<Rightarrow> Inr (map (\<lambda>interval. rootMidi + interval) shape)
      | Undefined \<Rightarrow>
          (case js_get CHORD_SHAPES ''maj7'' of
             Own shape \<Rightarrow> Inr (map (\<lambda>interval. rootMidi + interval) shape)
           | _ \<Rightarrow> Inl TypeError)
      | Inherited \<Rightarrow> Inl TypeError)"

text \<open>
  \<open>getScaleNotes\<close>: the outer loop runs over the octaves, the inner \<open>for ... of\<close> over
  the scale; the inherited members of \<open>Object.prototype\<close> are not iterable, so the inner
  loop raises as soon as it is reached.
\<close>

definition getScaleNotes :: "string \<Rightarrow> string \<Rightarrow> int \<Rightarrow> int \<Rightarrow> js_error + int list" where
  "getScaleNotes rootName scaleType octaveLow octaveHigh =
     (let rootMidi = nameToMidi (rootName @ ''4'');
          rootPitch = js_rem rootMidi 12;
          notes = (\<lambda>scale.
             sort (concat (map (\<lambda>oct. map (\<lambda>offset. (oct + 1) * 12 + js_rem (rootPitch + offset + 12) 12) scale)
                               [octaveLow..octaveHigh])))
      in case js_get SCALES scaleType of
           Own scale \<Rightarrow> Inr (notes scale)
         | Undefined \<Rightarrow>
             (case js_get SCALES ''major'' of
                Own scale \<Rightarrow> Inr (notes scale)
              | _ \<Rightarrow> Inl TypeError)
         | Inherited \<Rightarrow> if octaveLow \<le> octaveHigh then Inl TypeError else Inr [])"

definition buildScale :: "string \<Rightarrow> string \<Rightarrow> js_error + int list" where
  "buildScale rootName scaleType =
     (let rootPitch = js_rem (nameToMidi (rootName @ ''4'')) 12;
          offsets = (\<lambda>scale. map (\<lambda>s. js_rem (rootPitch + s) 12) scale)
      in case js_get SCALES scaleType of
           Own scale \<Rightarrow> Inr (offsets scale)
         | Undefined \<Rightarrow>
             (case js_get SCALES ''major'' of
                Own scale \<Rightarrow> Inr (offsets scale)
              | _ \<Rightarrow> Inl TypeError)
         | Inherited \<Rightarrow> Inl TypeError)"

definition CHORD_SCALES :: "(string \<times> int list) list" where
  "CHORD_SCALES =
     [(''major'', SCALE_major),
      (''minor'', SCALE_minor),
      (''dorian'', SCALE_dorian),
      (''pentatonic'', SCALE_major),
      (''minPenta'', SCALE_minor)]"

record Chord =
  chord_root :: int
  chord_quality :: string

text \<open>Indexing an array, \<open>xs[i]\<close>: \<open>undefined\<close> (\<open>None\<close>) outside the array.\<close>

definition js_index :: "'a list \<Rightarrow> int \<Rightarrow> 'a option" where
  "js_index xs i = (if 0 \<le> i \<and> i < int (length xs) then Some (xs ! nat i) else None)"

text \<open>The quality table that \<open>diatonicChord\<close> selects from the scale type.\<close>

definition diatonic_table :: "string \<Rightarrow> (int \<times> string) list" where
  "diatonic_table scaleType =
     (if scaleType = ''minor'' \<or> scaleType = ''minPenta'' \<or> scaleType = ''dorian''
      then DIATONIC_MINOR else DIATONIC_MAJOR)"

text \<open>
  \<open>diatonicChord\<close>. An inherited member standing in for the scale is a function or a
  plain object; indexing it by a number yields \<open>undefined\<close>, which \<open>?? 0\<close> replaces.
\<close>

definition diatonicChord :: "string \<Rightarrow> string \<Rightarrow> int \<Rightarrow> Chord" where
  "diatonicChord key scaleType degree =
     (let rootMidi = nameToMidi (key @ ''4'');
          diatonic = diatonic_table scaleType;
          normDegree = js_rem (js_rem (degree - 1) 7 + 7) 7 + 1;
          quality = (case map_of diatonic normDegree of Some q \<Rightarrow> q | None \<Rightarrow> ''maj7'');
          degreeIdx = js_rem (js_rem (degree - 1) 7 + 7) 7;
          pick = (\<lambda>scale. case js_index scale degreeIdx of Some s \<Rightarrow> s | None \<Rightarrow> 0);
          degreeSemitone =
            (case js_get CHORD_SCALES scaleType of
               Own scale \<Rightarrow> pick scale
             | Undefined \<Rightarrow>
                 (case js_get CHORD_SCALES ''major'' of Own scale \<Rightarrow> pick scale | _ \<Rightarrow> 0)
             | Inherited \<Rightarrow> 0);
          chordRootMidi = rootMidi + degreeSemitone
      in \<lparr>chord_root = chordRootMidi, chord_quality = quality\<rparr>)"

definition resolveChordFromTemplate :: "string \<Rightarrow> string \<Rightarrow> int \<times> string \<Rightarrow> Chord" where
  "resolveChordFromTemplate key scaleType template =
     (case template of (degree, quality) \<Rightarrow>
        \<lparr>chord_root = chord_root (diatonicChord key scaleType degree),
         chord_quality = quality\<rparr>)"


text \<open>
  The strings that \<open>NOTE_NAME_REGEX\<close> is written to accept, stated as a language: one
  letter from A to G, an optional sharp, an optional minus sign, one or more digits.
\<close>

definition note_name_parses :: "string \<Rightarrow> bool" where
  "note_name_parses s \<longleftrightarrow>
     (\<exists>l sharp sign ds. s = l # sharp @ sign @ ds \<and> is_note_letter l \<and>
        (sharp = [] \<or> sharp = ''#'') \<and> (sign = [] \<or> sign = ''-'') \<and>
        ds \<noteq> [] \<and> list_all is_digit ds)"

section \<open>Songs\<close>

datatype InstrumentId =
  Pad | Piano | Violin | Trumpet | Guitar | Contrabass | Subbass | Bass | Melody | Texture

datatype DrumId = Kick | Snare | Hihat

datatype SectionName = Intro | Verse | Chorus | Bridge | Outro

text \<open>
  Velocities, volumes and times in seconds are doubles in the source; the scheduler only
  passes them on or compares them, and they are modelled as exact reals.
\<close>

record InstrumentNoteEvent =
  duration :: string
  note_name :: string
  time :: string
  velocity :: real
  instrument :: InstrumentId

record DrumEvent =
  drum_instrument :: DrumId
  drum_time :: string
  drum_velocity :: real

record SongSection =
  bars :: int
  drumEvents :: "DrumEvent list"
  instrumentEvents :: "InstrumentNoteEvent list"
  name :: SectionName
  padVolume :: real
  startBar :: int

record SongFXParams =
  crackleMix :: real
  delayMix :: real
  filterCutoff :: real
  reverbDecay :: real
  reverbMix :: real

text \<open>The preset is opaque to the scheduler and the engine: a type parameter.\<close>

record 'preset Song =
  seed :: int
  preset :: 'preset
  key :: string
  tempo :: real
  swing :: real
  sections :: "SongSection list"
  totalBars :: int
  fxParams :: SongFXParams

section \<open>The transport\<close>

text \<open>
  What a registered callback does when it fires is recorded as the list of calls it
  makes on the voices and on the two hooks of the scheduler's options.
\<close>

datatype voice_call =
    SynthTrigger InstrumentId string string real real
  | MembraneTrigger DrumId string string real real
  | NoiseTrigger DrumId string real real
  | CrackleTrigger real real real
  | OnBar SectionName
  | OnSongEnd

text \<open>
  The closures that \<open>SongScheduler.schedule\<close> hands to the transport, one constructor
  per closure, each holding the variables the closure captures.
\<close>

datatype callback =
    EventCallback "InstrumentNoteEvent list" "DrumEvent list"
  | BarCallback "SongSection list"
  | CrackleCallback
  | SongEndCallback

datatype registration =
    Schedule callback string
  | ScheduleRepeat callback string string

record Transport =
  timeline :: "(nat \<times> registration) list"
  nextId :: nat
  started :: bool
  bpm :: real
  transport_swing :: real
  position :: string

text \<open>
  Modelled from the spec: the transport is the clock of the sound library, which is not
  part of the repository. Its contract is \<open>schedule(callback, time) -> handle\<close>,
  \<open>scheduleRepeat(callback, interval, start) -> handle\<close> and \<open>clear(handle)\<close>: a
  registration is stored under a fresh handle and stays until it is cleared.
\<close>

definition register :: "registration \<Rightarrow> Transport \<Rightarrow> nat \<times> Transport" where
  "register r t = (nextId t, t\<lparr>timeline := timeline t @ [(nextId t, r)], nextId := nextId t + 1\<rparr>)"

definition transport_schedule :: "callback \<Rightarrow> string \<Rightarrow> Transport \<Rightarrow> nat \<times> Transport" where
  "transport_schedule cb tm t = register (Schedule cb tm) t"

definition transport_scheduleRepeat ::
    "callback \<Rightarrow> string \<Rightarrow> string \<Rightarrow> Transport \<Rightarrow> nat \<times> Transport" where
  "transport_scheduleRepeat cb interval startTime t = register (ScheduleRepeat cb interval startTime) t"

definition transport_clear :: "nat \<Rightarrow> Transport \<Rightarrow> Transport" where
  "transport_clear i t = t\<lparr>timeline := filter (\<lambda>entry. fst entry \<noteq> i) (timeline t)\<rparr>"

section \<open>Transport times\<close>

text \<open>\<open>s.split(":")\<close>: the pieces between the colons; never an empty array.\<close>

fun split_colon :: "string \<Rightarrow> string list" where
  "split_colon [] = [[]]"
| "split_colon (c # cs) =
     (if c = CHR '':'' then [] # split_colon cs
      else (case split_colon cs of p # ps \<Rightarrow> (c # p) # ps | [] \<Rightarrow> [[c]]))"

text \<open>
  The inner \<open>parse\<close> of \<open>compareTransportTime\<close>: \<open>parseInt(x, 10) || 0\<close> on every
  piece, \<open>parts[i] ?? 0\<close> for a missing piece.
\<close>

definition parse_piece :: "string \<Rightarrow> int" where
  "parse_piece x = (case parseInt10 x of Some n \<Rightarrow> n | None \<Rightarrow> 0)"

definition parse :: "string \<Rightarrow> int" where
  "parse s =
     (let parts = map parse_piece (split_colon s);
          part = (\<lambda>i. case js_index parts i of Some n \<Rightarrow> n | None \<Rightarrow> 0)
      in part 0 * 16 + part 1 * 4 + part 2)"

definition compareTransportTime :: "string \<Rightarrow> string \<Rightarrow> int" where
  "compareTransportTime a b = parse a - parse b"

text \<open>
  \<open>Array.prototype.sort\<close> with a comparator is a stable sort (ECMAScript 2019): here
  insertion from the right, where an element goes in front of the first element it does
  not compare greater than.
\<close>

fun insert_by :: "('a \<Rightarrow> 'a \<Rightarrow> int) \<Rightarrow> 'a \<Rightarrow> 'a list \<Rightarrow> 'a list" where
  "insert_by cmp x [] = [x]"
| "insert_by cmp x (y # ys) = (if cmp x y \<le> 0 then x # y # ys else y # insert_by cmp x ys)"

definition js_sort :: "('a \<Rightarrow> 'a \<Rightarrow> int) \<Rightarrow> 'a list \<Rightarrow> 'a list" where
  "js_sort cmp xs = foldr (insert_by cmp) xs []"

text \<open>A template literal \<open>`${n}`\<close> of an integer: its decimal digits, with a sign.\<close>

definition digit_char :: "nat \<Rightarrow> char" where
  "digit_char n = ''0123456789'' ! n"

fun string_of_nat :: "nat \<Rightarrow> string" where
  "string_of_nat n =
     (if n < 10 then [digit_char n] else string_of_nat (n div 10) @ [digit_char (n mod 10)])"

declare string_of_nat.simps [simp del]

definition string_of_int :: "int \<Rightarrow> string" where
  "string_of_int i = (if i < 0 then CHR ''-'' # string_of_nat (nat (- i)) else string_of_nat (nat i))"


section \<open>The song scheduler\<close>

text \<open>
  \<open>eventsByTime\<close> is a \<open>Map\<close>: its keys keep the order of first insertion, and
  \<open>set\<close> on a key already present replaces the value in place.
\<close>

type_synonym batch = "InstrumentNoteEvent list \<times> DrumEvent list"

fun map_set :: "('k \<times> 'v) list \<Rightarrow> 'k \<Rightarrow> 'v \<Rightarrow> ('k \<times> 'v) list" where
  "map_set [] k v = [(k, v)]"
| "map_set ((k', v') # m) k v = (if k' = k then (k, v) # m else (k', v') # map_set m k v)"

definition empty_batch :: batch where
  "empty_batch = ([], [])"

definition add_instrument_event :: "(string \<times> batch) list \<Rightarrow> InstrumentNoteEvent \<Rightarrow> (string \<times> batch) list" where
  "add_instrument_event m e =
     (let entry = (case map_of m (time e) of Some en \<Rightarrow> en | None \<Rightarrow> empty_batch)
      in map_set m (time e) (fst entry @ [e], snd entry))"

definition add_drum_event :: "(string \<times> batch) list \<Rightarrow> DrumEvent \<Rightarrow> (string \<times> batch) list" where
  "add_drum_event m e =
     (let entry = (case map_of m (drum_time e) of Some en \<Rightarrow> en | None \<Rightarrow> empty_batch)
      in map_set m (drum_time e) (fst entry, snd entry @ [e]))"

definition add_section :: "(string \<times> batch) list \<Rightarrow> SongSection \<Rightarrow> (string \<times> batch) list" where
  "add_section m section =
     foldl add_drum_event (foldl add_instrument_event m (instrumentEvents section))
       (drumEvents section)"

definition collect_events :: "SongSection list \<Rightarrow> (string \<times> batch) list" where
  "collect_events secs = foldl add_section [] secs"

text \<open>
  \<open>getMelodicSynths\<close> returns an object with one synth under each of the ten instrument
  ids; the synth is identified with the id it is stored under.
\<close>

definition getMelodicSynths :: "InstrumentId \<Rightarrow> InstrumentId option" where
  "getMelodicSynths i = Some i"

text \<open>The three loops of the callback registered for one time position.\<close>

fun pad_loop :: "string \<Rightarrow> real \<Rightarrow> InstrumentNoteEvent list \<Rightarrow> voice_call list" where
  "pad_loop dur t [] = []"
| "pad_loop dur t (e # es) = SynthTrigger Pad (note_name e) dur t (velocity e) # pad_loop dur t es"

fun melodic_loop :: "real \<Rightarrow> InstrumentNoteEvent list \<Rightarrow> voice_call list" where
  "melodic_loop t [] = []"
| "melodic_loop t (e # es) =
     (if instrument e = Pad then melodic_loop t es
      else (case getMelodicSynths (instrument e) of
              Some synth \<Rightarrow>
                SynthTrigger synth (note_name e) (duration e) t (velocity e) # melodic_loop t es
            | None \<Rightarrow> melodic_loop t es))"

fun drum_loop :: "real \<Rightarrow> DrumEvent list \<Rightarrow> voice_call list" where
  "drum_loop t [] = []"
| "drum_loop t (d # ds) =
     (if drum_instrument d = Kick
      then MembraneTrigger (drum_instrument d) ''C2'' ''8n'' t (drum_velocity d) # drum_loop t ds
      else NoiseTrigger (drum_instrument d) ''32n'' t (drum_velocity d) # drum_loop t ds)"

definition event_callback :: "InstrumentNoteEvent list \<Rightarrow> DrumEvent list \<Rightarrow> real \<Rightarrow> voice_call list" where
  "event_callback instr drum t =
     (let padEvents = filter (\<lambda>e. instrument e = Pad) instr;
          padCalls = (case padEvents of
                        [] \<Rightarrow> []
                      | p # _ \<Rightarrow> (let dur = duration p in pad_loop dur t padEvents))
      in padCalls @ melodic_loop t instr @ drum_loop t drum)"

text \<open>
  The once-per-bar callback. The bar is \<open>Math.floor(beats / 4)\<close> with
  \<open>beats = time * (bpm / 60)\<close>, computed by the source in doubles from the time in
  seconds and the tempo; that integer is an argument here. The sections are then scanned
  with the running sum \<open>acc\<close> of their lengths.
\<close>

fun section_scan :: "int \<Rightarrow> int \<Rightarrow> SongSection list \<Rightarrow> voice_call list" where
  "section_scan bar acc [] = []"
| "section_scan bar acc (s # ss) =
     (if bar \<ge> acc \<and> bar < acc + bars s then [OnBar (name s)]
      else section_scan bar (acc + bars s) ss)"

definition bar_callback :: "SongSection list \<Rightarrow> int \<Rightarrow> voice_call list" where
  "bar_callback secs bar = section_scan bar 0 secs"

text \<open>
  The crackle callback draws from \<open>Math.random\<close> up to three times; the draws are
  arguments here, in the order the source makes them.
\<close>

definition crackle_callback :: "real \<Rightarrow> real \<Rightarrow> real \<Rightarrow> real \<Rightarrow> voice_call list" where
  "crackle_callback r r1 r2 t =
     (if r < 0.65 then
        (let isTick = r < 0.4;
             dur = (if isTick then 0.008 + r1 * 0.012 else 0.02 + r1 * 0.05);
             vel = (if isTick then 0.2 + r2 * 0.35 else 0.45 + r2 * 0.5)
         in [CrackleTrigger dur t vel])
      else [])"

text \<open>
  The options of \<open>schedule\<close>: the two hooks are optional, and only their presence matters
  to the scheduler. A hook that fires is recorded as \<open>OnBar\<close> or \<open>OnSongEnd\<close>.
\<close>

record SongSchedulerOptions =
  onBar :: bool
  onSongEnd :: bool

text \<open>The loop over \<open>sortedTimes\<close>: one registration per key, in that order.\<close>

fun schedule_times ::
    "(string \<times> batch) list \<Rightarrow> string list \<Rightarrow> nat list \<times> Transport \<Rightarrow> nat list \<times> Transport" where
  "schedule_times m [] (ids, t) = (ids, t)"
| "schedule_times m (tm # tms) (ids, t) =
     (let entry = (case map_of m tm of Some en \<Rightarrow> en | None \<Rightarrow> empty_batch);
          (i, t') = transport_schedule (EventCallback (fst entry) (snd entry)) tm t
      in schedule_times m tms (ids @ [i], t'))"

definition schedule ::
    "'preset Song \<Rightarrow> SongSchedulerOptions \<Rightarrow> Transport \<Rightarrow> nat list \<times> Transport" where
  "schedule song options t0 =
     (let eventsByTime = collect_events (sections song);
          sortedTimes = js_sort compareTransportTime (map fst eventsByTime);
          (ids1, t1) = schedule_times eventsByTime sortedTimes ([], t0);
          (ids2, t2) =
            (if onBar options then
               (let (barUpdateId, t') =
                      transport_scheduleRepeat (BarCallback (sections song)) ''1m'' ''0:0:0'' t1
                in (ids1 @ [barUpdateId], t'))
             else (ids1, t1));
          (crackleId, t3) = transport_scheduleRepeat CrackleCallback ''32n'' ''0:0:0'' t2;
          ids3 = ids2 @ [crackleId]
      in if onSongEnd options then
           (let (nextSongId, t4) =
                  transport_schedule SongEndCallback (string_of_int (totalBars song) @ '':0:0'') t3
            in (ids3 @ [nextSongId], t4))
         else (ids3, t3))"

section \<open>Musical positions\<close>

text \<open>
  A time string \<open>bar:beat:sixteenth\<close> decoded field by field, as the specification
  reads it: three runs of decimal digits between two colons.
\<close>

definition all_digits :: "string \<Rightarrow> bool" where
  "all_digits ds \<longleftrightarrow> ds \<noteq> [] \<and> list_all is_digit ds"

definition decodeTime :: "string \<Rightarrow> (nat \<times> nat \<times> nat) option" where
  "decodeTime s =
     (case split_colon s of
        [b, q, x] \<Rightarrow>
          if all_digits b \<and> all_digits q \<and> all_digits x
          then Some (nat (dec_val b), nat (dec_val q), nat (dec_val x)) else None
      | _ \<Rightarrow> None)"

definition wellformed_time :: "string \<Rightarrow> bool" where
  "wellformed_time s \<longleftrightarrow> (case decodeTime s of Some (b, q, x) \<Rightarrow> q < 4 \<and> x < 4 | None \<Rightarrow> False)"

text \<open>The composite order on positions: bar first, then beat, then sixteenth.\<close>

fun position_le :: "nat \<times> nat \<times> nat \<Rightarrow> nat \<times> nat \<times> nat \<Rightarrow> bool" where
  "position_le (b, q, x) (b', q', x') \<longleftrightarrow> b < b' \<or> (b = b' \<and> (q < q' \<or> (q = q' \<and> x \<le> x')))"

definition time_le :: "string \<Rightarrow> string \<Rightarrow> bool" where
  "time_le a b \<longleftrightarrow>
     (case (decodeTime a, decodeTime b) of (Some pa, Some pb) \<Rightarrow> position_le pa pb | _ \<Rightarrow> False)"

text \<open>
  Modelled from the spec: the clock of the transport, which belongs to the sound
  library. Positions are counted in thirty-second notes, the finest grid the scheduler
  uses: a bar is 32 of them, a beat 8, a sixteenth 2. A one-shot registration fires when
  the clock is at its time; a repeating one fires at its start and then once per interval
  (\<open>1m\<close> is one bar, \<open>32n\<close> one thirty-second note).
\<close>

fun ticks :: "nat \<times> nat \<times> nat \<Rightarrow> nat" where
  "ticks (b, q, x) = 32 * b + 8 * q + 2 * x"

definition interval_ticks :: "string \<Rightarrow> nat option" where
  "interval_ticks iv = (if iv = ''1m'' then Some 32 else if iv = ''32n'' then Some 1 else None)"

fun fires :: "registration \<Rightarrow> nat \<Rightarrow> bool" where
  "fires (Schedule cb tm) p =
     (case decodeTime tm of Some d \<Rightarrow> p = ticks d | None \<Rightarrow> False)"
| "fires (ScheduleRepeat cb iv st) p =
     (case interval_ticks iv of
        Some n \<Rightarrow> (case decodeTime st of
                     Some d \<Rightarrow> ticks d \<le> p \<and> (p - ticks d) mod n = 0
                   | None \<Rightarrow> False)
      | None \<Rightarrow> False)"

definition due :: "Transport \<Rightarrow> nat \<Rightarrow> (nat \<times> registration) list" where
  "due t p = filter (\<lambda>entry. fires (snd entry) p) (timeline t)"

text \<open>The times of all events of a song, section by section.\<close>

definition event_times :: "SongSection list \<Rightarrow> string list" where
  "event_times secs =
     concat (map (\<lambda>s. map time (instrumentEvents s) @ map drum_time (drumEvents s)) secs)"

text \<open>The registrations that a call adds to a timeline that held \<open>n\<close> entries before.\<close>

definition added :: "nat \<Rightarrow> Transport \<Rightarrow> (nat \<times> registration) list" where
  "added n t = drop n (timeline t)"

fun event_time_of :: "nat \<times> registration \<Rightarrow> string list" where
  "event_time_of (i, Schedule (EventCallback instr drum) tm) = [tm]"
| "event_time_of (i, r) = []"

definition event_registration_times :: "(nat \<times> registration) list \<Rightarrow> string list" where
  "event_registration_times entries = concat (map event_time_of entries)"

section \<open>The engine\<close>

record LofiParams =
  p_crackleMix :: real
  p_delayMix :: real
  p_filterCutoff :: real
  p_instrumentVolumes :: "(string \<times> real) list"
  p_reverbMix :: real
  p_tempo :: real
  p_volume :: real

text \<open>
  The mixer and the instruments are collaborators of the engine; the calls the engine
  makes on them are kept in a log, in the order they are made.
\<close>

datatype 'preset sound_call =
    Mixer_cancelVolumeScheduled
  | Mixer_setVolume real
  | Mixer_applyParams real real real real real
  | Mixer_configureFX real real real real
  | CrackleBg_start
  | CrackleBg_stop
  | Instruments_configurePreset 'preset
  | Instruments_applyVolumes "(string \<times> real) list"
  | Instruments_releaseAll

record 'preset LofiEngine =
  currentSong :: "'preset Song option"
  scheduledIds :: "nat list"
  currentSectionName :: "SectionName option"
  params :: LofiParams
  transport :: Transport
  sound_calls :: "'preset sound_call list"

definition call :: "'preset sound_call list \<Rightarrow> 'preset LofiEngine \<Rightarrow> 'preset LofiEngine" where
  "call cs e = e\<lparr>sound_calls := sound_calls e @ cs\<rparr>"

definition clear_all :: "nat list \<Rightarrow> Transport \<Rightarrow> Transport" where
  "clear_all ids t = foldl (\<lambda>t' i. transport_clear i t') t ids"

definition clearScheduled :: "'preset LofiEngine \<Rightarrow> 'preset LofiEngine" where
  "clearScheduled e = e\<lparr>transport := clear_all (scheduledIds e) (transport e), scheduledIds := []\<rparr>"

definition applyParamOverrides :: "'preset LofiEngine \<Rightarrow> 'preset LofiEngine" where
  "applyParamOverrides e =
     call [Mixer_applyParams (p_filterCutoff (params e)) (p_reverbMix (params e))
             (p_delayMix (params e)) (p_crackleMix (params e)) (p_volume (params e)),
           Instruments_applyVolumes (p_instrumentVolumes (params e))]
       (e\<lparr>transport := (transport e)\<lparr>bpm := p_tempo (params e)\<rparr>\<rparr>)"

definition configureSynths :: "'preset Song \<Rightarrow> 'preset LofiEngine \<Rightarrow> 'preset LofiEngine" where
  "configureSynths song e =
     call [Instruments_configurePreset (preset song),
           Instruments_applyVolumes (p_instrumentVolumes (params e))] e"

definition configureFX :: "SongFXParams \<Rightarrow> 'preset LofiEngine \<Rightarrow> 'preset LofiEngine" where
  "configureFX fx e =
     call [Mixer_configureFX (reverbDecay fx) (reverbMix fx) (delayMix fx) (filterCutoff fx)] e"

definition playSong :: "'preset Song \<Rightarrow> 'preset LofiEngine \<Rightarrow> 'preset LofiEngine" where
  "playSong song e0 =
     (let e1 = e0\<lparr>currentSong := Some song\<rparr>;
          e2 = clearScheduled e1;
          e3 = configureSynths song e2;
          e4 = configureFX (fxParams song) e3;
          e5 = e4\<lparr>transport := (transport e4)\<lparr>transport_swing := swing song\<rparr>\<rparr>;
          e6 = applyParamOverrides e5;
          e7 = call [Mixer_cancelVolumeScheduled, Mixer_setVolume (p_volume (params e6))] e6;
          (ids, t) = schedule song \<lparr>onBar = True, onSongEnd = True\<rparr> (transport e7);
          e8 = e7\<lparr>transport := t, scheduledIds := scheduledIds e7 @ ids\<rparr>;
          e9 = call [CrackleBg_start] e8
      in e9\<lparr>transport := (transport e9)\<lparr>started := True\<rparr>\<rparr>)"

text \<open>
  \<open>start(seed?)\<close>, after the sound library has started (its asynchronous start is taken
  to succeed). \<open>buildSong\<close> is a parameter: the generator works on doubles and is not
  modelled. \<open>now\<close> is the value of \<open>Date.now()\<close>.
\<close>

definition start ::
    "(int \<Rightarrow> 'preset Song) \<Rightarrow> int \<Rightarrow> int option \<Rightarrow> 'preset LofiEngine \<Rightarrow> 'preset LofiEngine" where
  "start buildSong now seed_arg e =
     (if currentSong e \<noteq> None \<and> seed_arg = None then
        (let e1 = call [Mixer_cancelVolumeScheduled, Mixer_setVolume (p_volume (params e)),
                        CrackleBg_start] e
         in e1\<lparr>transport := (transport e1)\<lparr>started := True\<rparr>\<rparr>)
      else
        (let song = buildSong (case seed_arg of Some s \<Rightarrow> s | None \<Rightarrow> now)
         in playSong song e))"

definition stop :: "'preset LofiEngine \<Rightarrow> 'preset LofiEngine" where
  "stop e =
     call [CrackleBg_stop, Mixer_cancelVolumeScheduled, Mixer_setVolume 0, Instruments_releaseAll]
       (e\<lparr>transport := (transport e)\<lparr>started := False\<rparr>\<rparr>)"


section \<open>Notions used to state the properties\<close>

text \<open>The transport after a list of registrations, each under the next free handle.\<close>

definition registered :: "registration list \<Rightarrow> Transport \<Rightarrow> Transport" where
  "registered rs t =
     t\<lparr>timeline := timeline t @ zip [nextId t..<nextId t + length rs] rs,
       nextId := nextId t + length rs\<rparr>"

text \<open>The registration that \<open>schedule\<close> makes for one key of \<open>eventsByTime\<close>.\<close>

definition event_registration :: "(string \<times> batch) list \<Rightarrow> string \<Rightarrow> registration" where
  "event_registration m tm =
     (let entry = (case map_of m tm of Some en \<Rightarrow> en | None \<Rightarrow> empty_batch)
      in Schedule (EventCallback (fst entry) (snd entry)) tm)"

text \<open>The registrations of one call of \<open>schedule\<close>, in the order they are made.\<close>

definition new_registrations :: "'preset Song \<Rightarrow> SongSchedulerOptions \<Rightarrow> registration list" where
  "new_registrations song options =
     map (event_registration (collect_events (sections song)))
       (js_sort compareTransportTime (map fst (collect_events (sections song)))) @
     (if onBar options then [ScheduleRepeat (BarCallback (sections song)) ''1m'' ''0:0:0''] else []) @
     [ScheduleRepeat CrackleCallback ''32n'' ''0:0:0''] @
     (if onSongEnd options
      then [Schedule SongEndCallback (string_of_int (totalBars song) @ '':0:0'')] else [])"

fun callback_of :: "registration \<Rightarrow> callback" where
  "callback_of (Schedule cb tm) = cb"
| "callback_of (ScheduleRepeat cb iv st) = cb"

text \<open>The first bar of section \<open>i\<close>: the sum of the lengths of the sections before it.\<close>

definition section_start :: "SongSection list \<Rightarrow> nat \<Rightarrow> int" where
  "section_start secs i = sum_list (map bars (take i secs))"

definition owns_bar :: "SongSection list \<Rightarrow> nat \<Rightarrow> int \<Rightarrow> bool" where
  "owns_bar secs i bar \<longleftrightarrow>
     section_start secs i \<le> bar \<and> bar < section_start secs i + bars (secs ! i)"

section \<open>A small song\<close>

text \<open>
  Two sections, twelve bars, events at three positions; the position in bar 10 comes
  before the one in bar 2 in the order of strings, and after it in musical order.
\<close>

definition ex_pad1 :: InstrumentNoteEvent where
  "ex_pad1 = \<lparr>duration = ''1n'', note_name = ''C3'', time = ''0:0:0'', velocity = 0.6, instrument = Pad\<rparr>"

definition ex_pad2 :: InstrumentNoteEvent where
  "ex_pad2 = \<lparr>duration = ''8n'', note_name = ''E3'', time = ''0:0:0'', velocity = 0.5, instrument = Pad\<rparr>"

definition ex_bass :: InstrumentNoteEvent where
  "ex_bass = \<lparr>duration = ''4n'', note_name = ''C2'', time = ''0:0:0'', velocity = 0.8, instrument = Bass\<rparr>"

definition ex_melody :: InstrumentNoteEvent where
  "ex_melody = \<lparr>duration = ''8n'', note_name = ''G4'', time = ''10:1:2'', velocity = 0.7, instrument = Melody\<rparr>"

definition ex_bass2 :: InstrumentNoteEvent where
  "ex_bass2 = \<lparr>duration = ''4n'', note_name = ''D2'', time = ''2:0:0'', velocity = 0.8, instrument = Bass\<rparr>"

definition ex_kick :: DrumEvent where
  "ex_kick = \<lparr>drum_instrument = Kick, drum_time = ''0:0:0'', drum_velocity = 1\<rparr>"

definition ex_hihat :: DrumEvent where
  "ex_hihat = \<lparr>drum_instrument = Hihat, drum_time = ''2:0:0'', drum_velocity = 0.3\<rparr>"

definition ex_intro :: SongSection where
  "ex_intro = \<lparr>bars = 2, drumEvents = [ex_kick], instrumentEvents = [ex_bass, ex_pad1, ex_pad2],
               name = Intro, padVolume = -12, startBar = 0\<rparr>"

definition ex_verse :: SongSection where
  "ex_verse = \<lparr>bars = 10, drumEvents = [ex_hihat], instrumentEvents = [ex_melody, ex_bass2],
               name = Verse, padVolume = 0, startBar = 2\<rparr>"

definition ex_song :: "unit Song" where
  "ex_song = \<lparr>seed = 1, preset = (), key = ''C'', tempo = 75, swing = 0,
              sections = [ex_intro, ex_verse], totalBars = 12,
              fxParams = \<lparr>crackleMix = 0.07, delayMix = 0.18, filterCutoff = 1000,
                          reverbDecay = 4, reverbMix = 0.4\<rparr>\<rparr>"

definition ex_options :: SongSchedulerOptions where
  "ex_options = \<lparr>onBar = True, onSongEnd = True\<rparr>"

definition ex_transport :: Transport where
  "ex_transport = \<lparr>timeline = [], nextId = 0, started = False, bpm = 75, transport_swing = 0,
                   position = ''0:0:0''\<rparr>"

definition ex_busy_transport :: Transport where
  "ex_busy_transport =
     ex_transport\<lparr>timeline := [(0, ScheduleRepeat CrackleCallback ''32n'' ''0:0:0'')], nextId := 1\<rparr>"

definition ex_params :: LofiParams where
  "ex_params = \<lparr>p_crackleMix = 0.08, p_delayMix = 0.15, p_filterCutoff = 1200,
                p_instrumentVolumes = [], p_reverbMix = 0.4, p_tempo = 75, p_volume = 1\<rparr>"

definition ex_engine :: "unit LofiEngine" where
  "ex_engine = \<lparr>currentSong = None, scheduledIds = [], currentSectionName = None,
                params = ex_params, transport = ex_transport, sound_calls = []\<rparr>"

section \<open>Properties of the music theory\<close>

lemma js_rem_nonneg: "0 \<le> a \<Longrightarrow> 0 < b \<Longrightarrow> js_rem a b = a mod b"
  by (cases "a = 0") (simp_all add: js_rem_def)

lemma js_rem_neg: "a < 0 \<Longrightarrow> 0 < b \<Longrightarrow> js_rem a b = - ((- a) mod b)"
  by (simp add: js_rem_def)

lemma js_rem_norm:
  assumes "0 < b"
  shows "js_rem (js_rem a b + b) b = a mod b"
proof (cases "0 \<le> a")
  case True
  then have "js_rem a b = a mod b" using assms by (rule js_rem_nonneg)
  moreover have "0 \<le> a mod b + b" using assms by (simp add: add_nonneg_nonneg)
  ultimately show ?thesis using assms by (simp add: js_rem_nonneg)
next
  case False
  then have r: "js_rem a b = - ((- a) mod b)" using assms by (simp add: js_rem_neg)
  have "(- a) mod b < b" using assms by simp
  then have "0 \<le> - ((- a) mod b) + b" by simp
  then have "js_rem (- ((- a) mod b) + b) b = (- ((- a) mod b) + b) mod b"
    using assms by (rule js_rem_nonneg)
  also have "\<dots> = (- ((- a) mod b)) mod b" by simp
  also have "\<dots> = a mod b" by (simp add: mod_minus_eq)
  finally show ?thesis by (simp add: r)
qed

lemma CHORD_SCALES_length: "map_of CHORD_SCALES st = Some scale \<Longrightarrow> length scale = 7"
  by (auto simp: CHORD_SCALES_def SCALE_major_def SCALE_minor_def SCALE_dorian_def split: if_splits)

lemma CHORD_SCALES_major: "js_get CHORD_SCALES ''major'' = Own SCALE_major"
  by (simp add: js_get_def CHORD_SCALES_def)

lemma js_index_in_range:
  "0 \<le> i \<Longrightarrow> i < int (length xs) \<Longrightarrow> js_index xs i = Some (xs ! nat i)"
  by (simp add: js_index_def)

lemma diatonicChord_root:
  "chord_root (diatonicChord keyName scaleType degree) =
     nameToMidi (keyName @ ''4'') +
       (case map_of CHORD_SCALES scaleType of
          Some scale \<Rightarrow> scale ! nat ((degree - 1) mod 7)
        | None \<Rightarrow> if scaleType \<in> set OBJECT_PROTOTYPE_KEYS then 0
                  else SCALE_major ! nat ((degree - 1) mod 7))"
proof -
  have idx: "js_rem (js_rem (degree - 1) 7 + 7) 7 = (degree - 1) mod 7"
    by (rule js_rem_norm) simp
  have rng: "0 \<le> (degree - 1) mod 7" "(degree - 1) mod 7 < 7" by simp_all
  have pick: "js_index scale ((degree - 1) mod 7) = Some (scale ! nat ((degree - 1) mod 7))"
    if "length scale = 7" for scale :: "int list"
    using that rng by (simp add: js_index_in_range)
  show ?thesis
  proof (cases "map_of CHORD_SCALES scaleType")
    case None
    have "length SCALE_major = 7" by (simp add: SCALE_major_def)
    then show ?thesis
      using None pick [of SCALE_major]
      by (simp add: diatonicChord_def idx js_get_def CHORD_SCALES_major [unfolded js_get_def] Let_def)
  next
    case (Some scale)
    then have "length scale = 7" by (rule CHORD_SCALES_length)
    then show ?thesis
      using Some pick [of scale]
      by (simp add: diatonicChord_def idx js_get_def Let_def)
  qed
qed

lemma diatonic_table_total:
  assumes "1 \<le> n" "n \<le> 7"
  shows "\<exists>q. map_of (diatonic_table scaleType) n = Some q"
proof -
  from assms have "n = 1 \<or> n = 2 \<or> n = 3 \<or> n = 4 \<or> n = 5 \<or> n = 6 \<or> n = 7" by arith
  then show ?thesis
    by (elim disjE) (simp_all add: diatonic_table_def DIATONIC_MAJOR_def DIATONIC_MINOR_def)
qed

lemma diatonicChord_quality:
  "map_of (diatonic_table scaleType) ((degree - 1) mod 7 + 1) =
     Some (chord_quality (diatonicChord keyName scaleType degree))"
proof -
  have idx: "js_rem (js_rem (degree - 1) 7 + 7) 7 = (degree - 1) mod 7"
    by (rule js_rem_norm) simp
  have "1 \<le> (degree - 1) mod 7 + 1" "(degree - 1) mod 7 + 1 \<le> 7" by simp_all
  then obtain q where "map_of (diatonic_table scaleType) ((degree - 1) mod 7 + 1) = Some q"
    using diatonic_table_total by blast
  then show ?thesis
    by (simp add: diatonicChord_def idx Let_def)
qed

lemma nameToMidi_C4: "nameToMidi ''C4'' = 60"
  by (simp add: nameToMidi_def NOTE_NAME_REGEX_def is_note_letter_def is_digit_def parseInt10_def js_whitespace_def dec_val_def digit_val_def NOTE_NAMES_def)

lemma note_names_midi_all:
  "list_all (\<lambda>k. nameToMidi (k @ ''4'') = 60 + indexOf NOTE_NAMES k) NOTE_NAMES"
  by code_simp

lemma nameToMidi_note_name:
  "k \<in> set NOTE_NAMES \<Longrightarrow> nameToMidi (k @ ''4'') = 60 + indexOf NOTE_NAMES k"
  using note_names_midi_all by (simp add: list_all_iff)

text \<open>
  Claim C7, as the code has it. For every key, scale type and template
  \<open>[degree, quality]\<close>, \<open>resolveChordFromTemplate\<close> returns the quality of the template
  unchanged; the quality of the diatonic table, minor-family for minor, minPenta and
  dorian and major-family otherwise, is what \<open>diatonicChord\<close> returns, and
  \<open>resolveChordFromTemplate\<close> drops it. When the key is one of the twelve note names
  C, C#, D, ..., B and the scale type does not name a member of \<open>Object.prototype\<close>, the
  root is at the diatonic scale degree of the key: 60 plus the index of the key among the
  note names, plus the semitone offset of the degree (taken modulo 7) in the seven-note
  chord scale of the scale type, which is the major scale for a scale type the table does
  not know.
\<close>

theorem C7_resolveChordFromTemplate:
  "chord_quality (resolveChordFromTemplate keyName scaleType (degree, quality)) = quality \<and>
   map_of (diatonic_table scaleType) ((degree - 1) mod 7 + 1) =
     Some (chord_quality (diatonicChord keyName scaleType degree)) \<and>
   (keyName \<in> set NOTE_NAMES \<longrightarrow> scaleType \<notin> set OBJECT_PROTOTYPE_KEYS \<longrightarrow>
      chord_root (resolveChordFromTemplate keyName scaleType (degree, quality)) =
        60 + indexOf NOTE_NAMES keyName +
          (case map_of CHORD_SCALES scaleType of
             Some scale \<Rightarrow> scale ! nat ((degree - 1) mod 7)
           | None \<Rightarrow> SCALE_major ! nat ((degree - 1) mod 7)))"
proof (intro conjI impI)
  show "chord_quality (resolveChordFromTemplate keyName scaleType (degree, quality)) = quality"
    by (simp add: resolveChordFromTemplate_def)
  show "map_of (diatonic_table scaleType) ((degree - 1) mod 7 + 1) =
          Some (chord_quality (diatonicChord keyName scaleType degree))"
    by (rule diatonicChord_quality)
next
  assume k: "keyName \<in> set NOTE_NAMES" and st: "scaleType \<notin> set OBJECT_PROTOTYPE_KEYS"
  have "chord_root (resolveChordFromTemplate keyName scaleType (degree, quality)) =
          chord_root (diatonicChord keyName scaleType degree)"
    by (simp add: resolveChordFromTemplate_def)
  then show "chord_root (resolveChordFromTemplate keyName scaleType (degree, quality)) =
        60 + indexOf NOTE_NAMES keyName +
          (case map_of CHORD_SCALES scaleType of
             Some scale \<Rightarrow> scale ! nat ((degree - 1) mod 7)
           | None \<Rightarrow> SCALE_major ! nat ((degree - 1) mod 7))"
    using st by (simp add: diatonicChord_root nameToMidi_note_name [OF k] split: option.splits)
qed

lemma ex_key_G:
  "''G'' \<in> set NOTE_NAMES" "indexOf NOTE_NAMES ''G'' = 7" "''major'' \<notin> set OBJECT_PROTOTYPE_KEYS"
  by (simp_all add: NOTE_NAMES_def OBJECT_PROTOTYPE_KEYS_def)

text \<open>
  At the fifth degree of G major with the template quality \<open>maj\<close> the root is D5 (67
  for G4 plus 7 semitones), the quality stays \<open>maj\<close>, and the table's \<open>dom7\<close> is only in
  \<open>diatonicChord\<close>.
\<close>

theorem C7_resolveChordFromTemplate_witness:
  "''G'' \<in> set NOTE_NAMES \<and> ''major'' \<notin> set OBJECT_PROTOTYPE_KEYS \<and>
   chord_quality (resolveChordFromTemplate ''G'' ''major'' (5, ''maj'')) = ''maj'' \<and>
   chord_root (resolveChordFromTemplate ''G'' ''major'' (5, ''maj'')) = 74 \<and>
   chord_quality (diatonicChord ''G'' ''major'' 5) = ''dom7''"
  using C7_resolveChordFromTemplate [of "''G''" "''major''" 5 "''maj''"] ex_key_G
  by (simp add: CHORD_SCALES_def SCALE_major_def diatonic_table_def DIATONIC_MAJOR_def)

lemma ex_fallback_roots:
  "chord_root (resolveChordFromTemplate ''Am'' ''minor'' (1, ''min'')) = 60"
  "chord_root (resolveChordFromTemplate ''C'' ''constructor'' (2, ''min'')) = 60"
  by code_simp+

text \<open>
  Claim C7 as stated fails at the first chord of the first Chillhop progression,
  \<open>[1, "maj"]\<close> in C major: the major-family table gives \<open>maj7\<close> for degree 1, the
  function returns \<open>maj\<close>. The root is not at the degree of the key either when the key
  is not a plain note name or the scale type names a member of \<open>Object.prototype\<close>: the
  first degree of the preset key \<open>Am\<close> is rooted at 60, a C, and the second degree under
  the scale type \<open>constructor\<close> is rooted at 60 as well, the first degree of C.
\<close>

theorem C7_quality_counterexample:
  "map_of (diatonic_table ''major'') 1 = Some ''maj7'' \<and>
   chord_root (resolveChordFromTemplate ''C'' ''major'' (1, ''maj'')) mod 12 = 0 \<and>
   chord_quality (resolveChordFromTemplate ''C'' ''major'' (1, ''maj'')) \<noteq> ''maj7'' \<and>
   chord_root (resolveChordFromTemplate ''Am'' ''minor'' (1, ''min'')) = 60 \<and>
   chord_root (resolveChordFromTemplate ''C'' ''constructor'' (2, ''min'')) = 60"
proof -
  have "map_of (diatonic_table ''major'') 1 = Some ''maj7'' \<and>
        chord_root (resolveChordFromTemplate ''C'' ''major'' (1, ''maj'')) mod 12 = 0 \<and>
        chord_quality (resolveChordFromTemplate ''C'' ''major'' (1, ''maj'')) \<noteq> ''maj7''"
    by (simp add: diatonic_table_def DIATONIC_MAJOR_def resolveChordFromTemplate_def
        diatonicChord_root nameToMidi_C4 CHORD_SCALES_def SCALE_major_def)
  with ex_fallback_roots show ?thesis by blast
qed

lemma digit_not_ws: "is_digit c \<Longrightarrow> \<not> js_whitespace c"
  by (auto simp: is_digit_def js_whitespace_def)

lemma digit_not_sign: "is_digit c \<Longrightarrow> c \<noteq> CHR ''-'' \<and> c \<noteq> CHR ''+''"
  by (auto simp: is_digit_def)

lemma parseInt10_digits:
  assumes "ds \<noteq> []" "list_all is_digit ds"
  shows "parseInt10 (ds @ rest) = Some (dec_val (ds @ takeWhile is_digit rest))"
proof -
  from assms obtain d ds' where ds: "ds = d # ds'" and d: "is_digit d"
    by (cases ds) auto
  have tw: "takeWhile is_digit (ds @ rest) = ds @ takeWhile is_digit rest"
    using assms(2) by (simp add: takeWhile_append2 list_all_iff)
  have dw: "dropWhile js_whitespace (ds @ rest) = ds @ rest"
    using d digit_not_ws by (simp add: ds)
  show ?thesis
    unfolding parseInt10_def dw using tw digit_not_sign [OF d] assms(1)
    by (simp add: ds)
qed

lemma parseInt10_neg_digits:
  assumes "ds \<noteq> []" "list_all is_digit ds"
  shows "parseInt10 (CHR ''-'' # ds) = Some (- dec_val ds)"
proof -
  have tw: "takeWhile is_digit ds = ds"
    using assms(2) by (simp add: list_all_iff)
  have "\<not> js_whitespace (CHR ''-'')" by (simp add: js_whitespace_def)
  then show ?thesis
    unfolding parseInt10_def using assms(1) by (simp add: tw Let_def)
qed

text \<open>
  The matcher against the language it is written for: a match yields the letter with its
  sharp and the octave digits with their sign, and exactly the strings of the language
  match.
\<close>

lemma NOTE_NAME_REGEX_groups:
  assumes "NOTE_NAME_REGEX s = Some (g1, g2)"
  shows "\<exists>l sharp sign ds. s = l # sharp @ sign @ ds \<and> g1 = l # sharp \<and> g2 = sign @ ds \<and>
           is_note_letter l \<and> (sharp = [] \<or> sharp = ''#'') \<and> (sign = [] \<or> sign = ''-'') \<and>
           ds \<noteq> [] \<and> list_all is_digit ds"
proof (cases s)
  case Nil
  with assms show ?thesis by (simp add: NOTE_NAME_REGEX_def)
next
  case (Cons c r)
  define sharp where "sharp = (if r \<noteq> [] \<and> hd r = CHR ''#'' then ''#'' else [])"
  define r1 where "r1 = drop (length sharp) r"
  define sign where "sign = (if r1 \<noteq> [] \<and> hd r1 = CHR ''-'' then ''-'' else [])"
  define ds where "ds = drop (length sign) r1"
  have r: "r = sharp @ r1"
    by (cases r) (auto simp: sharp_def r1_def)
  have r1: "r1 = sign @ ds"
    by (cases r1) (auto simp: sign_def ds_def)
  have c: "is_note_letter c"
    using assms Cons by (auto simp: NOTE_NAME_REGEX_def split: if_splits)
  have "ds \<noteq> [] \<and> list_all is_digit ds \<and> g1 = c # sharp \<and> g2 = sign @ ds"
    using assms Cons c unfolding NOTE_NAME_REGEX_def sharp_def r1_def sign_def ds_def
    by (cases r; cases "tl r") (auto simp: Let_def split: list.splits if_splits)
  moreover have "sharp = [] \<or> sharp = ''#''" "sign = [] \<or> sign = ''-''"
    by (auto simp: sharp_def sign_def)
  ultimately show ?thesis
    using Cons r r1 c by blast
qed

lemma NOTE_NAME_REGEX_octave:
  assumes "NOTE_NAME_REGEX s = Some (g1, g2)"
  shows "parseInt10 g2 \<noteq> None"
proof -
  from NOTE_NAME_REGEX_groups [OF assms] obtain sign ds where
    g2: "g2 = sign @ ds" and sg: "sign = [] \<or> sign = ''-''"
    and ds: "ds \<noteq> []" "list_all is_digit ds"
    by blast
  from sg show ?thesis
  proof
    assume "sign = []"
    then show ?thesis using parseInt10_digits [OF ds, of "[]"] g2 by simp
  next
    assume "sign = ''-''"
    then show ?thesis using parseInt10_neg_digits [OF ds] g2 by simp
  qed
qed

lemma not_digit_hash: "\<not> is_digit (CHR ''#'')" "\<not> is_digit (CHR ''-'')"
  by (simp_all add: is_digit_def)

lemma NOTE_NAME_REGEX_complete:
  assumes "note_name_parses s"
  shows "\<exists>g1 g2. NOTE_NAME_REGEX s = Some (g1, g2)"
proof -
  from assms obtain l sharp sign ds where s: "s = l # sharp @ sign @ ds"
    and l: "is_note_letter l" and sh: "sharp = [] \<or> sharp = ''#''"
    and sg: "sign = [] \<or> sign = ''-''" and ds: "ds \<noteq> []" "list_all is_digit ds"
    unfolding note_name_parses_def by blast
  from ds obtain d ds' where dd: "ds = d # ds'" "is_digit d" by (cases ds) auto
  then have nd: "d \<noteq> CHR ''#''" "d \<noteq> CHR ''-''" using not_digit_hash by auto
  show ?thesis
    using sh sg l ds dd nd unfolding s NOTE_NAME_REGEX_def
    by (auto simp: Let_def)
qed

lemma NOTE_NAME_REGEX_None: "NOTE_NAME_REGEX s = None \<longleftrightarrow> \<not> note_name_parses s"
proof
  assume "NOTE_NAME_REGEX s = None"
  then show "\<not> note_name_parses s" using NOTE_NAME_REGEX_complete [of s] by auto
next
  assume np: "\<not> note_name_parses s"
  show "NOTE_NAME_REGEX s = None"
  proof (cases "NOTE_NAME_REGEX s")
    case None
    then show ?thesis .
  next
    case (Some g)
    obtain g1 g2 where "g = (g1, g2)" by (cases g)
    with Some have "note_name_parses s"
      unfolding note_name_parses_def using NOTE_NAME_REGEX_groups [of s g1 g2] by blast
    with np show ?thesis by simp
  qed
qed

lemma nameToMidi_no_parse: "\<not> note_name_parses nm \<Longrightarrow> nameToMidi nm = 60"
  using NOTE_NAME_REGEX_None [of nm] by (simp add: nameToMidi_def)

text \<open>
  The fallbacks where they work: a key that neither the table nor \<open>Object.prototype\<close>
  defines reads as \<open>undefined\<close>, and \<open>??\<close> puts the default in its place.
\<close>

lemma CHORD_SHAPES_maj7: "js_get CHORD_SHAPES ''maj7'' = Own [0, 4, 7, 11]"
  by (simp add: js_get_def CHORD_SHAPES_def)

lemma SCALES_major: "js_get SCALES ''major'' = Own SCALE_major"
  by (simp add: js_get_def SCALES_def)

lemma js_get_Undefined:
  "map_of obj k = None \<Longrightarrow> k \<notin> set OBJECT_PROTOTYPE_KEYS \<Longrightarrow> js_get obj k = Undefined"
  by (simp add: js_get_def)

lemma js_get_Inherited:
  "map_of obj k = None \<Longrightarrow> k \<in> set OBJECT_PROTOTYPE_KEYS \<Longrightarrow> js_get obj k = Inherited"
  by (simp add: js_get_def)

lemma buildChord_fallback:
  assumes "map_of CHORD_SHAPES q = None" "q \<notin> set OBJECT_PROTOTYPE_KEYS"
  shows "buildChord rootMidi q = Inr (map (\<lambda>interval. rootMidi + interval) [0, 4, 7, 11])"
  using js_get_Undefined [OF assms] by (simp add: buildChord_def CHORD_SHAPES_maj7)

lemma buildScale_fallback:
  assumes "map_of SCALES st = None" "st \<notin> set OBJECT_PROTOTYPE_KEYS"
  shows "buildScale rootName st = buildScale rootName ''major''"
  using js_get_Undefined [OF assms] by (simp add: buildScale_def SCALES_major)

lemma getScaleNotes_fallback:
  assumes "map_of SCALES st = None" "st \<notin> set OBJECT_PROTOTYPE_KEYS"
  shows "getScaleNotes rootName st lo hi = getScaleNotes rootName ''major'' lo hi"
  using js_get_Undefined [OF assms] by (simp add: getScaleNotes_def SCALES_major)

lemma constructor_inherited:
  "js_get CHORD_SHAPES ''constructor'' = Inherited" "js_get SCALES ''constructor'' = Inherited"
  by (simp_all add: js_get_def CHORD_SHAPES_def SCALES_def OBJECT_PROTOTYPE_KEYS_def)

text \<open>
  Claim C8 says that for every quality string outside the chord-shape table \<open>buildChord\<close>
  returns the maj7 shape, and that \<open>buildScale\<close> and \<open>getScaleNotes\<close> fall back to the
  major scale for every scale type outside the scale table. The string \<open>constructor\<close> is
  in neither table, yet reading it from the table object yields the inherited
  \<open>Object\<close> function rather than \<open>undefined\<close>; the fallback is skipped and the call of
  \<open>map\<close> (or the iteration) on that function raises a \<open>TypeError\<close>.
\<close>

theorem C8_inherited_key_raises:
  "buildChord 60 ''constructor'' = Inl TypeError \<and>
   buildScale ''C'' ''constructor'' = Inl TypeError \<and>
   getScaleNotes ''C'' ''constructor'' 3 5 = Inl TypeError"
  by (simp add: buildChord_def buildScale_def getScaleNotes_def constructor_inherited)



section \<open>Properties of the dispatch callback\<close>

lemma pad_loop_map:
  "pad_loop dur t es = map (\<lambda>e. SynthTrigger Pad (note_name e) dur t (velocity e)) es"
  by (induction es) simp_all

lemma melodic_loop_map:
  "melodic_loop t es =
     map (\<lambda>e. SynthTrigger (instrument e) (note_name e) (duration e) t (velocity e))
       (filter (\<lambda>e. instrument e \<noteq> Pad) es)"
  by (induction es) (simp_all add: getMelodicSynths_def)

lemma drum_loop_map:
  "drum_loop t ds =
     map (\<lambda>d. if drum_instrument d = Kick
               then MembraneTrigger Kick ''C2'' ''8n'' t (drum_velocity d)
               else NoiseTrigger (drum_instrument d) ''32n'' t (drum_velocity d)) ds"
  by (induction ds) simp_all

lemma pad_calls:
  "(case pads of [] \<Rightarrow> [] | p # _ \<Rightarrow> pad_loop (duration p) t pads) =
     map (\<lambda>e. SynthTrigger Pad (note_name e) (duration (hd pads)) t (velocity e)) pads"
  by (cases pads) (simp_all add: pad_loop_map)

text \<open>
  Claim C6. The callback of one time position makes its calls in a fixed order: first one
  call on the pad voice for every pad event of the batch, then one call for every other
  instrument event, on the voice its instrument tag names and in the order of the batch,
  then one call for every drum event, on its drum voice and in the order of the batch.
\<close>

theorem C6_dispatch_order:
  "event_callback instr drum t =
     map (\<lambda>e. SynthTrigger Pad (note_name e)
                 (duration (hd (filter (\<lambda>e. instrument e = Pad) instr))) t (velocity e))
       (filter (\<lambda>e. instrument e = Pad) instr) @
     map (\<lambda>e. SynthTrigger (instrument e) (note_name e) (duration e) t (velocity e))
       (filter (\<lambda>e. instrument e \<noteq> Pad) instr) @
     map (\<lambda>d. if drum_instrument d = Kick
               then MembraneTrigger Kick ''C2'' ''8n'' t (drum_velocity d)
               else NoiseTrigger (drum_instrument d) ''32n'' t (drum_velocity d)) drum"
  unfolding event_callback_def Let_def pad_calls melodic_loop_map drum_loop_map ..


text \<open>The order on a batch of a bass note, two pad notes, a hi-hat and a kick.\<close>

theorem C6_dispatch_order_witness:
  "event_callback [ex_bass, ex_pad1, ex_pad2] [ex_hihat, ex_kick] 0 =
     [SynthTrigger Pad ''C3'' ''1n'' 0 0.6, SynthTrigger Pad ''E3'' ''1n'' 0 0.5,
      SynthTrigger Bass ''C2'' ''4n'' 0 0.8,
      NoiseTrigger Hihat ''32n'' 0 0.3, MembraneTrigger Kick ''C2'' ''8n'' 0 1]"
  using C6_dispatch_order [of "[ex_bass, ex_pad1, ex_pad2]" "[ex_hihat, ex_kick]" 0]
  by (simp add: ex_bass_def ex_pad1_def ex_pad2_def ex_hihat_def ex_kick_def)

text \<open>
  Claim C10. When two or more pad events share a time position, the call made for each
  of them carries the duration of the first pad event of the batch; the duration fields
  of the later pad events are not read.
\<close>

theorem C10_pad_duration:
  assumes "pads = filter (\<lambda>e. instrument e = Pad) instr"
    and "2 \<le> length pads" and "i < length pads"
  shows "event_callback instr drum t ! i =
           SynthTrigger Pad (note_name (pads ! i)) (duration (pads ! 0)) t (velocity (pads ! i))"
proof -
  from assms(2) have ne: "pads \<noteq> []" by auto
  then have hd: "hd pads = pads ! 0" by (simp add: hd_conv_nth)
  have "event_callback instr drum t ! i =
          map (\<lambda>e. SynthTrigger Pad (note_name e) (duration (hd pads)) t (velocity e)) pads ! i"
    using assms(3) unfolding event_callback_def Let_def pad_calls assms(1) [symmetric]
    by (simp add: nth_append)
  then show ?thesis using assms(3) hd by simp
qed

text \<open>
  Two pad events of durations \<open>1n\<close> and \<open>8n\<close> behind a bass note: the second pad call
  carries \<open>1n\<close>.
\<close>

theorem C10_pad_duration_witness:
  "[ex_pad1, ex_pad2] = filter (\<lambda>e. instrument e = Pad) [ex_bass, ex_pad1, ex_pad2] \<and>
   2 \<le> length [ex_pad1, ex_pad2] \<and> (1::nat) < length [ex_pad1, ex_pad2] \<and>
   duration ex_pad2 = ''8n'' \<and>
   event_callback [ex_bass, ex_pad1, ex_pad2] [ex_kick] 0 ! 1 = SynthTrigger Pad ''E3'' ''1n'' 0 0.5"
proof -
  have f: "[ex_pad1, ex_pad2] = filter (\<lambda>e. instrument e = Pad) [ex_bass, ex_pad1, ex_pad2]"
    by (simp add: ex_bass_def ex_pad1_def ex_pad2_def)
  have "event_callback [ex_bass, ex_pad1, ex_pad2] [ex_kick] 0 ! 1 =
          SynthTrigger Pad (note_name ([ex_pad1, ex_pad2] ! 1)) (duration ([ex_pad1, ex_pad2] ! 0)) 0
            (velocity ([ex_pad1, ex_pad2] ! 1))"
    by (rule C10_pad_duration [OF f]) simp_all
  then show ?thesis using f by (simp add: ex_pad1_def ex_pad2_def)
qed



section \<open>Properties of the scheduler\<close>

subsection \<open>The map of events\<close>

lemma map_set_keys:
  "map fst (map_set m k v) = (if k \<in> set (map fst m) then map fst m else map fst m @ [k])"
  by (induction m k v rule: map_set.induct) auto

lemma add_instrument_event_keys:
  "map fst (add_instrument_event m e) =
     (if time e \<in> set (map fst m) then map fst m else map fst m @ [time e])"
  by (simp add: add_instrument_event_def Let_def map_set_keys)

lemma add_drum_event_keys:
  "map fst (add_drum_event m e) =
     (if drum_time e \<in> set (map fst m) then map fst m else map fst m @ [drum_time e])"
  by (simp add: add_drum_event_def Let_def map_set_keys)

lemma foldl_instrument_keys:
  "distinct (map fst m) \<Longrightarrow>
     distinct (map fst (foldl add_instrument_event m es)) \<and>
     set (map fst (foldl add_instrument_event m es)) = set (map fst m) \<union> time ` set es"
proof (induction es arbitrary: m)
  case Nil
  then show ?case by simp
next
  case (Cons e es)
  have "distinct (map fst (add_instrument_event m e))"
    using Cons.prems by (simp add: add_instrument_event_keys)
  from Cons.IH [OF this] show ?case
    by (auto simp: add_instrument_event_keys split: if_splits)
qed

lemma foldl_drum_keys:
  "distinct (map fst m) \<Longrightarrow>
     distinct (map fst (foldl add_drum_event m es)) \<and>
     set (map fst (foldl add_drum_event m es)) = set (map fst m) \<union> drum_time ` set es"
proof (induction es arbitrary: m)
  case Nil
  then show ?case by simp
next
  case (Cons e es)
  have "distinct (map fst (add_drum_event m e))"
    using Cons.prems by (simp add: add_drum_event_keys)
  from Cons.IH [OF this] show ?case
    by (auto simp: add_drum_event_keys split: if_splits)
qed

lemma add_section_keys:
  assumes "distinct (map fst m)"
  shows "distinct (map fst (add_section m s)) \<and>
         set (map fst (add_section m s)) =
           set (map fst m) \<union> time ` set (instrumentEvents s) \<union> drum_time ` set (drumEvents s)"
proof -
  let ?m1 = "foldl add_instrument_event m (instrumentEvents s)"
  have 1: "distinct (map fst ?m1)"
    and 2: "set (map fst ?m1) = set (map fst m) \<union> time ` set (instrumentEvents s)"
    using foldl_instrument_keys [OF assms] by auto
  show ?thesis
    unfolding add_section_def using foldl_drum_keys [OF 1, of "drumEvents s"] 2 by simp
qed

lemma foldl_section_keys:
  "distinct (map fst m) \<Longrightarrow>
     distinct (map fst (foldl add_section m secs)) \<and>
     set (map fst (foldl add_section m secs)) = set (map fst m) \<union> set (event_times secs)"
proof (induction secs arbitrary: m)
  case Nil
  then show ?case by (simp add: event_times_def)
next
  case (Cons s secs)
  have d: "distinct (map fst (add_section m s))"
    and k: "set (map fst (add_section m s)) =
              set (map fst m) \<union> time ` set (instrumentEvents s) \<union> drum_time ` set (drumEvents s)"
    using add_section_keys [OF Cons.prems] by auto
  have "set (event_times (s # secs)) =
          time ` set (instrumentEvents s) \<union> drum_time ` set (drumEvents s) \<union> set (event_times secs)"
    by (auto simp: event_times_def)
  with Cons.IH [OF d] k show ?case by auto
qed

lemma collect_events_keys:
  "distinct (map fst (collect_events secs))"
  "set (map fst (collect_events secs)) = set (event_times secs)"
  using foldl_section_keys [of "[]" secs] by (simp_all add: collect_events_def)

subsection \<open>Sorting\<close>

lemma set_insert_by: "set (insert_by cmp x ys) = insert x (set ys)"
  by (induction ys) auto

lemma distinct_insert_by: "distinct (insert_by cmp x ys) \<longleftrightarrow> x \<notin> set ys \<and> distinct ys"
  by (induction ys) (auto simp: set_insert_by)

lemma set_js_sort: "set (js_sort cmp xs) = set xs"
  by (induction xs) (simp_all add: js_sort_def set_insert_by)

lemma distinct_js_sort: "distinct (js_sort cmp xs) \<longleftrightarrow> distinct xs"
  by (induction xs) (simp_all add: js_sort_def distinct_insert_by set_js_sort [unfolded js_sort_def])

lemma sorted_insert_by:
  fixes f :: "'a \<Rightarrow> int"
  assumes "sorted_wrt (\<lambda>a b. f a \<le> f b) ys"
  shows "sorted_wrt (\<lambda>a b. f a \<le> f b) (insert_by (\<lambda>a b. f a - f b) x ys)"
  using assms by (induction ys) (auto simp: set_insert_by)

lemma sorted_js_sort:
  fixes f :: "'a \<Rightarrow> int"
  shows "sorted_wrt (\<lambda>a b. f a \<le> f b) (js_sort (\<lambda>a b. f a - f b) xs)"
  by (induction xs) (simp_all add: js_sort_def sorted_insert_by)

lemma sorted_times: "sorted_wrt (\<lambda>a b. parse a \<le> parse b) (js_sort compareTransportTime xs)"
proof -
  have "compareTransportTime = (\<lambda>a b. parse a - parse b)"
    by (intro ext) (simp add: compareTransportTime_def)
  then show ?thesis using sorted_js_sort [of parse xs] by simp
qed


subsection \<open>Registrations\<close>

lemma registered_Nil: "registered [] t = t"
  by (simp add: registered_def)

lemma register_registered: "register r t = (nextId t, registered [r] t)"
  by (simp add: register_def registered_def)

lemma registered_append: "registered (rs @ rs') t = registered rs' (registered rs t)"
proof -
  have "[nextId t..<nextId t + (length rs + length rs')] =
          [nextId t..<nextId t + length rs] @ [nextId t + length rs..<nextId t + length rs + length rs']"
    by (metis add.assoc le_add1 upt_add_eq_append)
  then show ?thesis
    by (simp add: registered_def add.assoc)
qed

lemma registered_Cons: "registered (r # rs) t = registered rs (registered [r] t)"
  using registered_append [of "[r]" rs t] by simp

lemma nextId_registered: "nextId (registered rs t) = nextId t + length rs"
  by (simp add: registered_def)

lemma timeline_registered:
  "timeline (registered rs t) = timeline t @ zip [nextId t..<nextId t + length rs] rs"
  by (simp add: registered_def)

lemma schedule_times_registered:
  "schedule_times m tms (ids, t) =
     (ids @ [nextId t..<nextId t + length tms], registered (map (event_registration m) tms) t)"
proof (induction tms arbitrary: ids t)
  case Nil
  then show ?case by (simp add: registered_Nil)
next
  case (Cons tm tms)
  let ?r = "event_registration m tm"
  let ?t = "registered [?r] t"
  have "schedule_times m (tm # tms) (ids, t) = schedule_times m tms (ids @ [nextId t], ?t)"
    by (simp add: transport_schedule_def register_registered event_registration_def Let_def)
  also have "\<dots> = ((ids @ [nextId t]) @ [nextId ?t..<nextId ?t + length tms],
                     registered (map (event_registration m) tms) ?t)"
    by (rule Cons.IH)
  also have "\<dots> = (ids @ [nextId t..<nextId t + length (tm # tms)],
                     registered (map (event_registration m) (tm # tms)) t)"
  proof -
    have "[nextId t..<nextId t + length (tm # tms)] =
            nextId t # [Suc (nextId t)..<Suc (nextId t) + length tms]"
      by (subst upt_conv_Cons) simp_all
    moreover have "nextId ?t = Suc (nextId t)"
      by (simp add: nextId_registered)
    moreover have "registered (map (event_registration m) (tm # tms)) t =
                     registered (map (event_registration m) tms) ?t"
      using registered_Cons [of ?r "map (event_registration m) tms" t] by simp
    ultimately show ?thesis by (simp only: append_assoc append_Cons append_Nil)
  qed
  finally show ?case .
qed


lemma upt_snoc: "[n..<n + k] @ [n + k] = [n..<n + Suc k]"
  by simp

lemma schedule_registered:
  "schedule song options t =
     ([nextId t..<nextId t + length (new_registrations song options)],
      registered (new_registrations song options) t)"
proof -
  let ?m = "collect_events (sections song)"
  let ?ev = "map (event_registration ?m) (js_sort compareTransportTime (map fst ?m))"
  let ?bar = "ScheduleRepeat (BarCallback (sections song)) ''1m'' ''0:0:0''"
  let ?cr = "ScheduleRepeat CrackleCallback ''32n'' ''0:0:0''"
  let ?end = "Schedule SongEndCallback (string_of_int (totalBars song) @ '':0:0'')"
  have snoc: "registered [r] (registered rs t) = registered (rs @ [r]) t" for r rs
    by (simp add: registered_append)
  have ids: "[nextId t..<nextId t + length rs] @ [nextId t + length rs] =
               [nextId t..<nextId t + length (rs @ [r])]" for rs :: "registration list" and r
    by simp
  have t1: "schedule_times ?m (js_sort compareTransportTime (map fst ?m)) ([], t) =
              ([nextId t..<nextId t + length ?ev], registered ?ev t)"
    by (simp add: schedule_times_registered)
  show ?thesis
  proof (cases "onBar options"; cases "onSongEnd options")
    assume "onBar options" "onSongEnd options"
    then show ?thesis
      unfolding schedule_def new_registrations_def Let_def t1
      apply (simp only: transport_scheduleRepeat_def transport_schedule_def register_registered
          nextId_registered split_conv if_True snoc ids)
      apply simp
      done
  next
    assume "onBar options" "\<not> onSongEnd options"
    then show ?thesis
      unfolding schedule_def new_registrations_def Let_def t1
      apply (simp only: transport_scheduleRepeat_def transport_schedule_def register_registered
          nextId_registered split_conv if_True if_False snoc ids)
      apply simp
      done
  next
    assume "\<not> onBar options" "onSongEnd options"
    then show ?thesis
      unfolding schedule_def new_registrations_def Let_def t1
      apply (simp only: transport_scheduleRepeat_def transport_schedule_def register_registered
          nextId_registered split_conv if_True if_False snoc ids)
      apply simp
      done
  next
    assume "\<not> onBar options" "\<not> onSongEnd options"
    then show ?thesis
      unfolding schedule_def new_registrations_def Let_def t1
      apply (simp only: transport_scheduleRepeat_def transport_schedule_def register_registered
          nextId_registered split_conv if_True if_False snoc ids)
      apply simp
      done
  qed
qed


subsection \<open>Times\<close>

lemma digit_val_range: "is_digit c \<Longrightarrow> 0 \<le> digit_val c \<and> digit_val c \<le> 9"
  by (auto simp: is_digit_def digit_val_def)

lemma foldl_digits_nonneg:
  "list_all is_digit ds \<Longrightarrow> 0 \<le> a \<Longrightarrow> 0 \<le> foldl (\<lambda>a d. 10 * a + digit_val d) a ds"
proof (induction ds arbitrary: a)
  case Nil
  then show ?case by simp
next
  case (Cons d ds)
  then have "0 \<le> 10 * a + digit_val d" using digit_val_range [of d] by simp
  with Cons show ?case by simp
qed

lemma dec_val_nonneg: "list_all is_digit ds \<Longrightarrow> 0 \<le> dec_val ds"
  by (simp add: dec_val_def foldl_digits_nonneg)

lemma parse_piece_digits: "all_digits ds \<Longrightarrow> parse_piece ds = dec_val ds"
  using parseInt10_digits [of ds "[]"] by (simp add: all_digits_def parse_piece_def)

lemma parse_decode:
  assumes "decodeTime s = Some (b, q, x)"
  shows "parse s = 16 * int b + 4 * int q + int x"
proof -
  from assms obtain bs qs xs where sp: "split_colon s = [bs, qs, xs]"
    and d: "all_digits bs" "all_digits qs" "all_digits xs"
    and v: "b = nat (dec_val bs)" "q = nat (dec_val qs)" "x = nat (dec_val xs)"
    by (auto simp: decodeTime_def split: list.splits if_splits)
  have "int b = dec_val bs" "int q = dec_val qs" "int x = dec_val xs"
    using d v dec_val_nonneg by (simp_all add: all_digits_def)
  then show ?thesis
    using d by (simp add: parse_def sp Let_def js_index_def parse_piece_digits)
qed

lemma parse_le_time_le:
  assumes "wellformed_time a" "wellformed_time b" "parse a \<le> parse b"
  shows "time_le a b"
proof -
  from assms(1) obtain b1 q1 x1 where a: "decodeTime a = Some (b1, q1, x1)" and r1: "q1 < 4" "x1 < 4"
    by (auto simp: wellformed_time_def split: option.splits)
  from assms(2) obtain b2 q2 x2 where b: "decodeTime b = Some (b2, q2, x2)" and r2: "q2 < 4" "x2 < 4"
    by (auto simp: wellformed_time_def split: option.splits)
  from assms(3) have "16 * int b1 + 4 * int q1 + int x1 \<le> 16 * int b2 + 4 * int q2 + int x2"
    by (simp add: parse_decode [OF a] parse_decode [OF b])
  with r1 r2 have "position_le (b1, q1, x1) (b2, q2, x2)"
    by simp arith
  then show ?thesis by (simp add: time_le_def a b)
qed

subsection \<open>The times of the event registrations\<close>

lemma event_time_of_id: "event_time_of (i, r) = event_time_of (j, r)"
proof (cases r)
  case (Schedule cb tm)
  then show ?thesis by (cases cb) simp_all
next
  case (ScheduleRepeat cb iv st)
  then show ?thesis by simp
qed

lemma event_registration_times_zip:
  "length ids = length rs \<Longrightarrow>
     event_registration_times (zip ids rs) = concat (map (\<lambda>r. event_time_of (0, r)) rs)"
proof (induction rs arbitrary: ids)
  case Nil
  then show ?case by (simp add: event_registration_times_def)
next
  case (Cons r rs)
  then obtain i ids' where ids: "ids = i # ids'" and len: "length ids' = length rs"
    by (cases ids) auto
  show ?case
    using Cons.IH [OF len] event_time_of_id [of i r 0]
    by (simp add: ids event_registration_times_def)
qed

lemma event_time_of_event_registration: "event_time_of (i, event_registration m tm) = [tm]"
  by (simp add: event_registration_def Let_def)

lemma concat_singletons: "concat (map (\<lambda>x. [x]) xs) = xs"
  by (induction xs) simp_all

lemma new_registration_times:
  "concat (map (\<lambda>r. event_time_of (0, r)) (new_registrations song options)) =
     js_sort compareTransportTime (map fst (collect_events (sections song)))"
  by (simp add: new_registrations_def comp_def event_time_of_event_registration concat_singletons)

lemma added_registered:
  "added (length (timeline t)) (registered rs t) = zip [nextId t..<nextId t + length rs] rs"
  by (simp add: added_def timeline_registered)

lemma schedule_event_times:
  "event_registration_times (added (length (timeline t)) (snd (schedule song options t))) =
     js_sort compareTransportTime (map fst (collect_events (sections song)))"
  by (simp add: schedule_registered added_registered event_registration_times_zip
      new_registration_times)

text \<open>
  Claim C2. \<open>schedule\<close> registers exactly one event callback per distinct event time of
  the song: the times of the event registrations it adds are pairwise distinct and are
  the event times of the sections. When every event time is well formed, with beat and
  sixteenth below 4, these registrations are made in non-decreasing order of the decoded
  position, compared field by field as numbers.
\<close>

theorem C2_registration_order:
  "distinct (event_registration_times (added (length (timeline t)) (snd (schedule song options t)))) \<and>
   set (event_registration_times (added (length (timeline t)) (snd (schedule song options t)))) =
     set (event_times (sections song)) \<and>
   ((\<forall>tm \<in> set (event_times (sections song)). wellformed_time tm) \<longrightarrow>
      sorted_wrt time_le
        (event_registration_times (added (length (timeline t)) (snd (schedule song options t)))))"
proof -
  let ?keys = "map fst (collect_events (sections song))"
  let ?sorted = "js_sort compareTransportTime ?keys"
  have d: "distinct ?sorted"
    by (simp add: distinct_js_sort collect_events_keys)
  have s: "set ?sorted = set (event_times (sections song))"
    by (simp only: set_js_sort collect_events_keys)
  have o: "sorted_wrt time_le ?sorted" if wf: "\<forall>tm \<in> set (event_times (sections song)). wellformed_time tm"
  proof (rule sorted_wrt_mono_rel [OF _ sorted_times])
    fix a b
    assume "a \<in> set ?sorted" "b \<in> set ?sorted" "parse a \<le> parse b"
    with wf s show "time_le a b" by (auto intro: parse_le_time_le)
  qed
  show ?thesis
    unfolding schedule_event_times using d s o by blast
qed

text \<open>
  On the small song the registrations come at \<open>0:0:0\<close>, \<open>2:0:0\<close>, \<open>10:1:2\<close>: bar 10
  after bar 2, one registration for the seven events at three positions.
\<close>

lemma ex_times_wellformed: "\<forall>tm \<in> set (event_times (sections ex_song)). wellformed_time tm"
  by code_simp

lemma ex_registration_times:
  "event_registration_times (added (length (timeline ex_transport)) (snd (schedule ex_song ex_options ex_transport))) =
     [''0:0:0'', ''2:0:0'', ''10:1:2'']"
  by code_simp

theorem C2_registration_order_witness:
  "list_all wellformed_time (event_times (sections ex_song)) \<and>
   event_registration_times
     (added (length (timeline ex_transport)) (snd (schedule ex_song ex_options ex_transport))) =
     [''0:0:0'', ''2:0:0'', ''10:1:2''] \<and>
   sorted_wrt time_le [''0:0:0'', ''2:0:0'', ''10:1:2'']"
  using C2_registration_order [of ex_transport ex_song ex_options]
    ex_times_wellformed ex_registration_times
  by (simp add: list_all_iff)


subsection \<open>Clearing\<close>

lemma clear_all_filter:
  "clear_all ids t = t\<lparr>timeline := filter (\<lambda>entry. fst entry \<notin> set ids) (timeline t)\<rparr>"
proof (induction ids arbitrary: t)
  case Nil
  then show ?case by (simp add: clear_all_def)
next
  case (Cons i ids)
  have "clear_all (i # ids) t = clear_all ids (transport_clear i t)"
    by (simp add: clear_all_def)
  also have "\<dots> = (transport_clear i t)\<lparr>timeline :=
      filter (\<lambda>entry. fst entry \<notin> set ids) (timeline (transport_clear i t))\<rparr>"
    by (rule Cons.IH)
  also have "\<dots> = t\<lparr>timeline := filter (\<lambda>entry. fst entry \<notin> set (i # ids)) (timeline t)\<rparr>"
    by (simp add: transport_clear_def conj_commute)
  finally show ?case .
qed

lemma filter_zip_ids: "filter (\<lambda>entry. fst entry \<notin> set ids) (zip ids rs) = []"
  by (auto simp: filter_empty_conv dest: set_zip_leftD)

lemma filter_old_entries:
  assumes "\<forall>entry \<in> set old. fst entry < n"
  shows "filter (\<lambda>entry. fst entry \<notin> set [n..<n + k]) old = old"
  using assms by (auto simp: filter_id_conv)

lemma clear_registered:
  assumes "\<forall>entry \<in> set (timeline t). fst entry < nextId t"
  shows "timeline (clear_all [nextId t..<nextId t + length rs] (registered rs t)) = timeline t"
proof -
  let ?ids = "[nextId t..<nextId t + length rs]"
  have "timeline (clear_all ?ids (registered rs t)) =
          filter (\<lambda>entry. fst entry \<notin> set ?ids) (timeline t) @
          filter (\<lambda>entry. fst entry \<notin> set ?ids) (zip ?ids rs)"
    by (simp add: clear_all_filter timeline_registered del: set_upt)
  then show ?thesis
    by (simp only: filter_old_entries [OF assms] filter_zip_ids append_Nil2)
qed

text \<open>
  Claim C3. On a transport whose handles in use are all below the next free handle, a
  call of \<open>schedule\<close> only appends registrations to the timeline, and the handles of the
  registrations it appends (event callbacks, bar callback, crackle callback, song-end
  callback) are exactly the list it returns. Clearing every handle of that list gives
  back the timeline as it was before the call, so at every position the callbacks due
  are those that were due before: none registered by the call fires any more.
\<close>

theorem C3_handles_complete:
  assumes "\<forall>entry \<in> set (timeline t). fst entry < nextId t"
  shows "case schedule song options t of
           (ids, t') \<Rightarrow>
             timeline t' = timeline t @ added (length (timeline t)) t' \<and>
             map snd (added (length (timeline t)) t') = new_registrations song options \<and>
             map fst (added (length (timeline t)) t') = ids \<and>
             timeline (clear_all ids t') = timeline t \<and>
             (\<forall>p. due (clear_all ids t') p = due t p)"
proof -
  let ?rs = "new_registrations song options"
  let ?ids = "[nextId t..<nextId t + length ?rs]"
  have a: "added (length (timeline t)) (registered ?rs t) = zip ?ids ?rs"
    by (rule added_registered)
  have c: "timeline (clear_all ?ids (registered ?rs t)) = timeline t"
    by (rule clear_registered [OF assms])
  have "timeline (registered ?rs t) = timeline t @ zip ?ids ?rs"
    by (rule timeline_registered)
  moreover have "map snd (zip ?ids ?rs) = ?rs" "map fst (zip ?ids ?rs) = ?ids"
    by simp_all
  moreover have "due (clear_all ?ids (registered ?rs t)) p = due t p" for p
    by (simp add: due_def c)
  ultimately show ?thesis
    by (simp add: schedule_registered a c)
qed

text \<open>
  On a transport that already holds one registration under handle 0, scheduling the
  small song returns the handles 1 to 6, and clearing them leaves that registration alone.
\<close>

lemma ex_busy_invariant: "\<forall>entry \<in> set (timeline ex_busy_transport). fst entry < nextId ex_busy_transport"
  by (simp add: ex_busy_transport_def)

lemma ex_busy_ids: "fst (schedule ex_song ex_options ex_busy_transport) = [1, 2, 3, 4, 5, 6]"
  by code_simp

theorem C3_handles_complete_witness:
  "list_all (\<lambda>entry. fst entry < nextId ex_busy_transport) (timeline ex_busy_transport) \<and>
   fst (schedule ex_song ex_options ex_busy_transport) = [1, 2, 3, 4, 5, 6] \<and>
   timeline (clear_all [1, 2, 3, 4, 5, 6] (snd (schedule ex_song ex_options ex_busy_transport))) =
     [(0, ScheduleRepeat CrackleCallback ''32n'' ''0:0:0'')]"
proof -
  obtain ids t' where s: "schedule ex_song ex_options ex_busy_transport = (ids, t')"
    by (cases "schedule ex_song ex_options ex_busy_transport")
  with ex_busy_ids have ids: "ids = [1, 2, 3, 4, 5, 6]" by simp
  from C3_handles_complete [OF ex_busy_invariant, of ex_song ex_options] s
  have "timeline (clear_all ids t') = timeline ex_busy_transport" by simp
  then show ?thesis
    using ex_busy_invariant s ids by (simp add: ex_busy_transport_def list_all_iff)
qed


subsection \<open>Decimal digits\<close>

lemma below_ten: "(n::nat) < 10 \<Longrightarrow> n \<in> {0, 1, 2, 3, 4, 5, 6, 7, 8, 9}"
  by auto

lemma digit_char_digit: "n < 10 \<Longrightarrow> is_digit (digit_char n) \<and> digit_val (digit_char n) = int n"
  by (drule below_ten) (auto simp: digit_char_def is_digit_def digit_val_def)

lemma dec_val_snoc: "dec_val (ds @ [d]) = 10 * dec_val ds + digit_val d"
  by (simp add: dec_val_def)

lemma string_of_nat_digits:
  "string_of_nat n \<noteq> [] \<and> list_all is_digit (string_of_nat n) \<and> dec_val (string_of_nat n) = int n"
proof (induction n rule: string_of_nat.induct)
  case (1 n)
  show ?case
  proof (cases "n < 10")
    case True
    then show ?thesis
      using digit_char_digit [of n] by (simp add: string_of_nat.simps [of n] dec_val_def)
  next
    case False
    have m: "n mod 10 < 10" by simp
    from False 1 have ih: "list_all is_digit (string_of_nat (n div 10))"
      "dec_val (string_of_nat (n div 10)) = int (n div 10)" by simp_all
    have "string_of_nat n = string_of_nat (n div 10) @ [digit_char (n mod 10)]"
      using False by (simp add: string_of_nat.simps [of n])
    moreover have "10 * int (n div 10) + int (n mod 10) = int n"
      by presburger
    ultimately show ?thesis
      using ih digit_char_digit [OF m] by (simp add: dec_val_snoc)
  qed
qed

lemma digit_not_colon: "is_digit c \<Longrightarrow> c \<noteq> CHR '':''"
  by (auto simp: is_digit_def)

lemma split_colon_prefix:
  "list_all is_digit ds \<Longrightarrow> split_colon (ds @ CHR '':'' # rest) = ds # split_colon rest"
proof (induction ds)
  case Nil
  then show ?case by simp
next
  case (Cons d ds)
  then show ?case using digit_not_colon [of d] by simp
qed

lemma split_colon_zero: "split_colon ''0:0'' = [''0'', ''0'']"
  by simp

lemma all_digits_zero: "all_digits ''0''" "dec_val ''0'' = 0"
  by (simp_all add: all_digits_def is_digit_def dec_val_def digit_val_def)

lemma decodeTime_bar:
  assumes "0 \<le> n"
  shows "decodeTime (string_of_int n @ '':0:0'') = Some (nat n, 0, 0)"
proof -
  let ?ds = "string_of_nat (nat n)"
  have s: "string_of_int n = ?ds" using assms by (simp add: string_of_int_def)
  have d: "?ds \<noteq> []" "list_all is_digit ?ds" "dec_val ?ds = int (nat n)"
    using string_of_nat_digits [of "nat n"] by simp_all
  have "split_colon (?ds @ '':0:0'') = [?ds, ''0'', ''0'']"
    using split_colon_prefix [OF d(2), of "''0:0''"] split_colon_zero by simp
  then show ?thesis
    using d all_digits_zero by (simp add: s decodeTime_def all_digits_def)
qed

subsection \<open>The song-end registration\<close>

lemma callback_of_event_registration:
  "callback_of (event_registration m tm) \<noteq> SongEndCallback"
  by (simp add: event_registration_def Let_def)

lemma filter_zip_none:
  assumes "\<forall>r \<in> set rs. \<not> P r"
  shows "filter (\<lambda>entry. P (snd entry)) (zip ids rs) = []"
  using assms by (auto simp: filter_empty_conv dest: set_zip_rightD)

lemma zip_upt_snoc:
  "zip [n..<n + length (rs @ [r])] (rs @ [r]) = zip [n..<n + length rs] rs @ [(n + length rs, r)]"
  by simp

lemma new_registrations_song_end:
  assumes "onSongEnd options"
  shows "\<exists>front. new_registrations song options =
           front @ [Schedule SongEndCallback (string_of_int (totalBars song) @ '':0:0'')] \<and>
           (\<forall>r \<in> set front. callback_of r \<noteq> SongEndCallback)"
proof -
  let ?m = "collect_events (sections song)"
  let ?front = "map (event_registration ?m) (js_sort compareTransportTime (map fst ?m)) @
     (if onBar options then [ScheduleRepeat (BarCallback (sections song)) ''1m'' ''0:0:0''] else []) @
     [ScheduleRepeat CrackleCallback ''32n'' ''0:0:0'']"
  have "new_registrations song options =
          ?front @ [Schedule SongEndCallback (string_of_int (totalBars song) @ '':0:0'')]"
    using assms by (simp add: new_registrations_def)
  moreover have "\<forall>r \<in> set ?front. callback_of r \<noteq> SongEndCallback"
    by (auto simp: callback_of_event_registration)
  ultimately show ?thesis by blast
qed

text \<open>
  Claim C4. A call of \<open>schedule\<close> with an \<open>onSongEnd\<close> hook, for a song whose total
  number of bars is not negative, adds exactly one song-end registration, the last handle
  returned; it is a one-shot registration at the time string \<open>totalBars:0:0\<close>, which
  decodes to bar \<open>totalBars\<close>, beat 0, sixteenth 0, and it fires at that position and at
  no other, in particular at no earlier one.
\<close>

theorem C4_song_end_once:
  assumes "onSongEnd options" and "0 \<le> totalBars song"
  shows "case schedule song options t of
           (ids, t') \<Rightarrow>
             filter (\<lambda>entry. callback_of (snd entry) = SongEndCallback)
                 (added (length (timeline t)) t') =
               [(last ids, Schedule SongEndCallback (string_of_int (totalBars song) @ '':0:0''))] \<and>
             decodeTime (string_of_int (totalBars song) @ '':0:0'') = Some (nat (totalBars song), 0, 0) \<and>
             (\<forall>p. fires (Schedule SongEndCallback (string_of_int (totalBars song) @ '':0:0'')) p
                    \<longleftrightarrow> p = ticks (nat (totalBars song), 0, 0))"
proof -
  let ?end = "Schedule SongEndCallback (string_of_int (totalBars song) @ '':0:0'')"
  let ?n = "nextId t"
  from new_registrations_song_end [OF assms(1), of song] obtain front where
    nr: "new_registrations song options = front @ [?end]"
    and fr: "\<forall>r \<in> set front. callback_of r \<noteq> SongEndCallback"
    by blast
  have z: "zip [?n..<?n + length (front @ [?end])] (front @ [?end]) =
             zip [?n..<?n + length front] front @ [(?n + length front, ?end)]"
    by (rule zip_upt_snoc)
  have f: "filter (\<lambda>entry. callback_of (snd entry) = SongEndCallback)
             (zip [?n..<?n + length front] front) = []"
    using fr by (intro filter_zip_none) simp
  have l: "last [?n..<?n + length (front @ [?end])] = ?n + length front"
    by simp
  have d: "decodeTime (string_of_int (totalBars song) @ '':0:0'') = Some (nat (totalBars song), 0, 0)"
    by (rule decodeTime_bar [OF assms(2)])
  have "filter (\<lambda>entry. callback_of (snd entry) = SongEndCallback)
          (added (length (timeline t)) (registered (front @ [?end]) t)) =
        [(last [?n..<?n + length (front @ [?end])], ?end)]"
    unfolding added_registered z l by (simp add: f)
  then show ?thesis
    using d by (simp add: schedule_registered nr)
qed

text \<open>The small song has twelve bars: its song-end callback is due at \<open>12:0:0\<close> only.\<close>

lemma ex_song_end: "onSongEnd ex_options \<and> 0 \<le> totalBars ex_song \<and> string_of_int (totalBars ex_song) @ '':0:0'' = ''12:0:0''"
  by code_simp

lemma ex_schedule_ids: "fst (schedule ex_song ex_options ex_transport) = [0, 1, 2, 3, 4, 5]"
  by code_simp

theorem C4_song_end_once_witness:
  "onSongEnd ex_options \<and> 0 \<le> totalBars ex_song \<and> totalBars ex_song = 12 \<and>
   filter (\<lambda>entry. callback_of (snd entry) = SongEndCallback)
     (added (length (timeline ex_transport)) (snd (schedule ex_song ex_options ex_transport))) =
     [(5, Schedule SongEndCallback ''12:0:0'')] \<and>
   decodeTime ''12:0:0'' = Some (12, 0, 0) \<and>
   (\<forall>p. fires (Schedule SongEndCallback ''12:0:0'') p \<longleftrightarrow> p = 384)"
proof -
  obtain ids t' where s: "schedule ex_song ex_options ex_transport = (ids, t')"
    by (cases "schedule ex_song ex_options ex_transport")
  with ex_schedule_ids have ids: "ids = [0, 1, 2, 3, 4, 5]" by simp
  have tb: "totalBars ex_song = 12" by (simp add: ex_song_def)
  from ex_song_end have h: "onSongEnd ex_options" "0 \<le> totalBars ex_song"
    and str: "string_of_int (totalBars ex_song) @ '':0:0'' = ''12:0:0''" by simp_all
  from C4_song_end_once [OF h, of ex_transport] s
  show ?thesis
    unfolding str using h tb ids by simp
qed


subsection \<open>The bar callback\<close>

lemma section_start_0: "section_start secs 0 = 0"
  by (simp add: section_start_def)

lemma section_start_Suc: "section_start (s # ss) (Suc j) = bars s + section_start ss j"
  by (simp add: section_start_def)

lemma section_scan_hit:
  assumes "i < length secs"
    and "acc + section_start secs i \<le> bar \<and> bar < acc + section_start secs i + bars (secs ! i)"
    and "\<forall>j<i. \<not> (acc + section_start secs j \<le> bar \<and>
                    bar < acc + section_start secs j + bars (secs ! j))"
  shows "section_scan bar acc secs = [OnBar (name (secs ! i))]"
  using assms
proof (induction secs arbitrary: acc i)
  case Nil
  then show ?case by simp
next
  case (Cons s ss)
  show ?case
  proof (cases i)
    case 0
    with Cons.prems(2) show ?thesis by (simp add: section_start_0)
  next
    case (Suc i')
    from Cons.prems(3) Suc have miss: "\<not> (acc \<le> bar \<and> bar < acc + bars s)"
      by (auto simp: section_start_0 dest: spec [of _ 0])
    have len: "i' < length ss" using Cons.prems(1) Suc by simp
    have hit: "(acc + bars s) + section_start ss i' \<le> bar \<and>
               bar < (acc + bars s) + section_start ss i' + bars (ss ! i')"
      using Cons.prems(2) Suc by (simp add: section_start_Suc add.assoc)
    have first: "\<forall>j<i'. \<not> ((acc + bars s) + section_start ss j \<le> bar \<and>
                   bar < (acc + bars s) + section_start ss j + bars (ss ! j))"
    proof (intro allI impI)
      fix j assume "j < i'"
      then have "Suc j < i" using Suc by simp
      with Cons.prems(3) show "\<not> ((acc + bars s) + section_start ss j \<le> bar \<and>
                   bar < (acc + bars s) + section_start ss j + bars (ss ! j))"
        by (auto simp: section_start_Suc add.assoc dest!: spec [of _ "Suc j"])
    qed
    from Cons.IH [OF len hit first] miss Suc show ?thesis by auto
  qed
qed

lemma section_scan_miss:
  assumes "\<forall>j<length secs. \<not> (acc + section_start secs j \<le> bar \<and>
                    bar < acc + section_start secs j + bars (secs ! j))"
  shows "section_scan bar acc secs = []"
  using assms
proof (induction secs arbitrary: acc)
  case Nil
  then show ?case by simp
next
  case (Cons s ss)
  from Cons.prems have miss: "\<not> (acc \<le> bar \<and> bar < acc + bars s)"
    by (auto simp: section_start_0 dest: spec [of _ 0])
  have "\<forall>j<length ss. \<not> ((acc + bars s) + section_start ss j \<le> bar \<and>
                   bar < (acc + bars s) + section_start ss j + bars (ss ! j))"
  proof (intro allI impI)
    fix j assume "j < length ss"
    then have "Suc j < length (s # ss)" by simp
    with Cons.prems show "\<not> ((acc + bars s) + section_start ss j \<le> bar \<and>
                   bar < (acc + bars s) + section_start ss j + bars (ss ! j))"
      by (auto simp: section_start_Suc add.assoc dest!: spec [of _ "Suc j"])
  qed
  from Cons.IH [OF this] miss show ?case by simp
qed

text \<open>
  Claim C5, as the code has it. Each firing of the once-per-bar callback invokes the
  \<open>onBar\<close> hook once, with the name of the first section whose range of bars contains
  the bar that the callback has computed from its time and the tempo; this happens on
  every bar of the section, the callback keeping no memory of the section it reported
  last. When no section contains the bar the hook is not invoked.
\<close>

theorem C5_on_bar_every_bar:
  "(\<forall>i<length secs.
      owns_bar secs i bar \<longrightarrow>
      (\<forall>j<i. \<not> owns_bar secs j bar) \<longrightarrow>
      bar_callback secs bar = [OnBar (name (secs ! i))]) \<and>
   ((\<forall>i<length secs. \<not> owns_bar secs i bar) \<longrightarrow>
      bar_callback secs bar = [])"
proof (intro conjI allI impI)
  fix i
  assume "i < length secs" "owns_bar secs i bar"
    "\<forall>j<i. \<not> owns_bar secs j bar"
  then show "bar_callback secs bar = [OnBar (name (secs ! i))]"
    unfolding bar_callback_def owns_bar_def
    by (intro section_scan_hit) simp_all
next
  assume "\<forall>i<length secs. \<not> owns_bar secs i bar"
  then show "bar_callback secs bar = []"
    unfolding bar_callback_def owns_bar_def
    by (intro section_scan_miss) simp
qed

lemma ex_owner:
  "owns_bar (sections ex_song) 1 3" "\<not> owns_bar (sections ex_song) 0 3"
  by (simp_all add: owns_bar_def section_start_def ex_song_def ex_intro_def ex_verse_def)

text \<open>
  In the small song the verse starts at bar 2; in bar 3, its second bar, the callback
  reports the verse.
\<close>

theorem C5_on_bar_every_bar_witness:
  "(1::nat) < length (sections ex_song) \<and> owns_bar (sections ex_song) 1 3 \<and>
   \<not> owns_bar (sections ex_song) 0 3 \<and>
   bar_callback (sections ex_song) 3 = [OnBar Verse]"
proof -
  have l: "(1::nat) < length (sections ex_song)" by (simp add: ex_song_def)
  have n: "name (sections ex_song ! 1) = Verse" by (simp add: ex_song_def ex_verse_def)
  from C5_on_bar_every_bar [of "sections ex_song" 3] l ex_owner
  have "bar_callback (sections ex_song) 3 = [OnBar (name (sections ex_song ! 1))]"
    by simp
  then show ?thesis using l n ex_owner by simp
qed

text \<open>
  Claim C5 as stated fails on the small song: the hook is invoked with the verse when
  the verse is entered at bar 2, and again at bar 3. At 60 beats per minute these are the
  firings at 8 and at 12 seconds, where the source computes \<open>8 * (60 / 60) / 4 = 2\<close> and
  \<open>12 * (60 / 60) / 4 = 3\<close> without rounding.
\<close>

theorem C5_second_bar_counterexample:
  "section_start (sections ex_song) 1 = 2 \<and>
   bar_callback (sections ex_song) 2 = [OnBar Verse] \<and>
   bar_callback (sections ex_song) 3 = [OnBar Verse]"
  by (simp add: bar_callback_def section_start_def ex_song_def ex_intro_def ex_verse_def)

subsection \<open>The engine\<close>

lemma currentSong_playSong: "currentSong (playSong song e) = Some song"
  by (simp add: playSong_def Let_def split_def call_def applyParamOverrides_def configureFX_def
      configureSynths_def clearScheduled_def)

text \<open>
  Claim C9. \<open>start\<close> without a seed on an engine that has a current song resumes: the
  mixer volume is restored, the crackle and the transport are started, and the current
  song, the list of scheduled handles and the timeline of the transport stay as they
  are; no song is built. When there is no current song, or a seed is given, the song built
  from the seed (or from the clock) is played and becomes the current song.
\<close>

theorem C9_start_resume:
  "(currentSong e = Some song \<longrightarrow>
      start buildSong now None e =
        e\<lparr>sound_calls := sound_calls e @
             [Mixer_cancelVolumeScheduled, Mixer_setVolume (p_volume (params e)), CrackleBg_start],
          transport := (transport e)\<lparr>started := True\<rparr>\<rparr> \<and>
      currentSong (start buildSong now None e) = Some song \<and>
      scheduledIds (start buildSong now None e) = scheduledIds e \<and>
      timeline (transport (start buildSong now None e)) = timeline (transport e)) \<and>
   (currentSong e = None \<or> seed_arg \<noteq> None \<longrightarrow>
      start buildSong now seed_arg e =
        playSong (buildSong (case seed_arg of Some s \<Rightarrow> s | None \<Rightarrow> now)) e \<and>
      currentSong (start buildSong now seed_arg e) =
        Some (buildSong (case seed_arg of Some s \<Rightarrow> s | None \<Rightarrow> now)))"
  by (auto simp: start_def Let_def call_def currentSong_playSong)

text \<open>
  An engine playing the small song resumes with the song and its six handles in place;
  an idle engine, or a seed, gets a new song.
\<close>

lemma ex_playing:
  "currentSong (playSong ex_song ex_engine) = Some ex_song"
  "scheduledIds (playSong ex_song ex_engine) = [0, 1, 2, 3, 4, 5]"
  by (simp add: currentSong_playSong, code_simp)

theorem C9_start_resume_witness:
  "currentSong (playSong ex_song ex_engine) = Some ex_song \<and>
   currentSong (start (\<lambda>s. ex_song\<lparr>seed := s\<rparr>) 1700000000000 None (playSong ex_song ex_engine)) =
     Some ex_song \<and>
   scheduledIds (start (\<lambda>s. ex_song\<lparr>seed := s\<rparr>) 1700000000000 None (playSong ex_song ex_engine)) =
     [0, 1, 2, 3, 4, 5] \<and>
   currentSong ex_engine = None \<and>
   currentSong (start (\<lambda>s. ex_song\<lparr>seed := s\<rparr>) 1700000000000 None ex_engine) =
     Some (ex_song\<lparr>seed := 1700000000000\<rparr>) \<and>
   currentSong (start (\<lambda>s. ex_song\<lparr>seed := s\<rparr>) 1700000000000 (Some 7) (playSong ex_song ex_engine)) =
     Some (ex_song\<lparr>seed := 7\<rparr>)"
proof -
  let ?b = "\<lambda>s. ex_song\<lparr>seed := s\<rparr>"
  let ?playing = "playSong ex_song ex_engine"
  have idle: "currentSong ex_engine = None" by (simp add: ex_engine_def)
  have resume: "currentSong (start ?b 1700000000000 None ?playing) = Some ex_song"
    "scheduledIds (start ?b 1700000000000 None ?playing) = scheduledIds ?playing"
    using C9_start_resume [of ?playing ex_song ?b 1700000000000 None] ex_playing(1) by simp_all
  have "currentSong (start ?b 1700000000000 None ex_engine) =
          Some (?b (case None of Some s \<Rightarrow> s | None \<Rightarrow> 1700000000000))"
    using C9_start_resume [of ex_engine ex_song ?b 1700000000000 None] idle by blast
  then have fresh: "currentSong (start ?b 1700000000000 None ex_engine) = Some (?b 1700000000000)"
    by simp
  have "Some (7::int) \<noteq> None" by simp
  then have "currentSong (start ?b 1700000000000 (Some 7) ?playing) =
          Some (?b (case Some 7 of Some s \<Rightarrow> s | None \<Rightarrow> 1700000000000))"
    using C9_start_resume [of ?playing ex_song ?b 1700000000000 "Some 7"] by blast
  then have seeded: "currentSong (start ?b 1700000000000 (Some 7) ?playing) = Some (?b 7)"
    by simp
  show ?thesis
    using idle resume fresh seeded ex_playing by simp
qed


end
